theory Spec2Isabelle
  imports Complex_Main "HOL-Library.Word"
begin

section \<open>Data model of \<open>HW2/image_generator.py\<close>\<close>

text \<open>
  The generator works on NumPy arrays of dtype \<open>uint8\<close> as OpenCV returns them: an
  array carries its shape and its pixels. A colour image has shape \<open>[h, w, c]\<close>, a
  grey-scale one (what \<open>cv2.imread\<close> with \<open>IMREAD_UNCHANGED\<close> gives for a one-channel
  file) has shape \<open>[h, w]\<close>; its pixels are stored here as one-element lists. The shape is
  kept beside the pixels because an empty slice still has one (\<open>(0, 7, 4)\<close>).
\<close>

type_synonym u8 = "8 word"

record ndarray =
  shape :: "nat list"
  pix :: "u8 list list list"

definition wf_array :: "ndarray \<Rightarrow> bool" where
  "wf_array a \<longleftrightarrow>
     (length (shape a) = 2 \<or> length (shape a) = 3) \<and>
     length (pix a) = shape a ! 0 \<and>
     (\<forall>r \<in> set (pix a). length r = shape a ! 1 \<and>
        (\<forall>p \<in> set r. length p = (if length (shape a) = 3 then shape a ! 2 else 1)))"

text \<open>Exceptions of the Python program, as values.\<close>

datatype py_error =
    ValueError string
  | IndexError
  | CvError

text \<open>The placement dictionary \<open>{"h": ..., "w": ...}\<close>.\<close>

record coord =
  coord_h :: int
  coord_w :: int

text \<open>
  Floating-point arithmetic (Python \<open>float\<close>, NumPy \<open>float64\<close>) is a parameter of the
  model: the operations the program applies, over a type \<open>'f\<close> of floating-point values.
  \<open>to_int\<close> is Python's \<open>int()\<close>, \<open>to_u8\<close> the conversion NumPy performs when a
  \<open>float64\<close> value is stored into a \<open>uint8\<close> array, \<open>funiform a b k\<close> and
  \<open>frandom k\<close> the values \<open>random.uniform(a, b)\<close> and \<open>random.random()\<close> make of the
  generator's raw output \<open>k\<close>.
\<close>

record 'f fops =
  fadd :: "'f \<Rightarrow> 'f \<Rightarrow> 'f"
  fsub :: "'f \<Rightarrow> 'f \<Rightarrow> 'f"
  fmul :: "'f \<Rightarrow> 'f \<Rightarrow> 'f"
  fdiv :: "'f \<Rightarrow> 'f \<Rightarrow> 'f"
  fabs :: "'f \<Rightarrow> 'f"
  fless :: "'f \<Rightarrow> 'f \<Rightarrow> bool"
  fround2 :: "'f \<Rightarrow> 'f"
  of_int_f :: "int \<Rightarrow> 'f"
  of_ratio :: "int \<Rightarrow> int \<Rightarrow> 'f"
  to_int :: "'f \<Rightarrow> int"
  to_u8 :: "'f \<Rightarrow> u8"
  funiform :: "'f \<Rightarrow> 'f \<Rightarrow> nat \<Rightarrow> 'f"
  frandom :: "nat \<Rightarrow> 'f"

definition of_u8 :: "'f fops \<Rightarrow> u8 \<Rightarrow> 'f" where
  "of_u8 fo v = of_int_f fo (uint v)"

text \<open>
  Exact arithmetic on the reals, the idealisation of \<open>float64\<close> used to run the model on
  concrete inputs. \<open>of_ratio n d\<close> is the literal \<open>n/d\<close> (\<open>0.01\<close> is \<open>of_ratio 1 100\<close>).
\<close>

definition trunc :: "real \<Rightarrow> int" where
  "trunc x = (if 0 \<le> x then \<lfloor>x\<rfloor> else \<lceil>x\<rceil>)"

definition ideal :: "real fops" where
  "ideal = \<lparr> fadd = (+), fsub = (-), fmul = (*), fdiv = (/), fabs = abs, fless = (<),
     fround2 = (\<lambda>x. real_of_int (round (x * 100)) / 100),
     of_int_f = real_of_int,
     of_ratio = (\<lambda>n d. real_of_int n / real_of_int d),
     to_int = trunc,
     to_u8 = (\<lambda>x. word_of_int (trunc x)),
     funiform = (\<lambda>a b k. a + (b - a) * (real (k mod 2 ^ 53) / 2 ^ 53)),
     frandom = (\<lambda>k. real (k mod 2 ^ 53) / 2 ^ 53) \<rparr>"

section \<open>Slicing and the blend of \<open>_overlay\<close>\<close>

text \<open>
  Python normalises a slice bound against the length: a negative bound counts from the
  end, and the result is clamped to \<open>[0, len]\<close>.
\<close>

definition slice_bound :: "int \<Rightarrow> nat \<Rightarrow> nat" where
  "slice_bound n len = (if n < 0 then nat (max 0 (int len + n)) else min (nat n) len)"

text \<open>\<open>cell[:cell_h, :cell_w]\<close>\<close>

definition slice2 :: "ndarray \<Rightarrow> int \<Rightarrow> int \<Rightarrow> ndarray" where
  "slice2 a ch cw =
     (let nh = slice_bound ch (shape a ! 0); nw = slice_bound cw (shape a ! 1)
      in \<lparr> shape = nh # nw # drop 2 (shape a),
           pix = map (take nw) (take nh (pix a)) \<rparr>)"

text \<open>
  Writing through a slice: the elements \<open>s, ..., s + n - 1\<close> of \<open>xs\<close> are combined with
  the elements of \<open>ys\<close>, the others stay.
\<close>

definition zip_range :: "nat \<Rightarrow> nat \<Rightarrow> ('a \<Rightarrow> 'b \<Rightarrow> 'a) \<Rightarrow> 'a list \<Rightarrow> 'b list \<Rightarrow> 'a list" where
  "zip_range s n f xs ys = take s xs @ map2 f (take n (drop s xs)) ys @ drop (s + n) xs"

text \<open>
  NumPy broadcasting along one axis: an operand that has the length of the target is taken
  as it is, one of length 1 is repeated; \<open>broadcastable\<close> is the check NumPy makes on
  the two lengths, whose failure is the \<open>ValueError\<close> "could not be broadcast".
\<close>

definition broadcastable :: "nat \<Rightarrow> nat \<Rightarrow> bool" where
  "broadcastable a n \<longleftrightarrow> a = n \<or> a = 1"

definition broadcast_to :: "nat \<Rightarrow> 'a list \<Rightarrow> 'a list" where
  "broadcast_to n xs = (if length xs = n then xs else replicate n (hd xs))"

text \<open>
  The value stored for one pixel and one colour channel:
  \<open>(1 - alpha) * background + alpha * cell\<close>, converted on the store into the \<open>uint8\<close>
  array. \<open>alpha_of\<close> is \<open>(cell[:, :, 3] / 255.0) * transparency\<close> at one pixel.
\<close>

definition alpha_of :: "'f fops \<Rightarrow> 'f \<Rightarrow> u8 list \<Rightarrow> 'f" where
  "alpha_of fo transparency p =
     fmul fo (fdiv fo (of_u8 fo (p ! 3)) (of_int_f fo 255)) transparency"

definition blend_value :: "'f fops \<Rightarrow> 'f \<Rightarrow> u8 \<Rightarrow> u8 \<Rightarrow> 'f" where
  "blend_value fo al b s =
     fadd fo (fmul fo (fsub fo (of_int_f fo 1) al) (of_u8 fo b)) (fmul fo al (of_u8 fo s))"

definition blend_px :: "'f fops \<Rightarrow> 'f \<Rightarrow> nat \<Rightarrow> u8 list \<Rightarrow> u8 list \<Rightarrow> u8 list" where
  "blend_px fo transparency c bp cp =
     bp[c := to_u8 fo (blend_value fo (alpha_of fo transparency cp) (bp ! c) (cp ! c))]"

definition blend_row ::
  "'f fops \<Rightarrow> 'f \<Rightarrow> nat \<Rightarrow> nat \<Rightarrow> nat \<Rightarrow> u8 list list \<Rightarrow> u8 list list \<Rightarrow> u8 list list" where
  "blend_row fo transparency c c0 nc brow crow =
     zip_range c0 nc (blend_px fo transparency c) brow (broadcast_to nc crow)"

text \<open>
  One pass of the loop \<open>for c in range(3)\<close>: the assignment
  \<open>background[h:h + cell_h, w:w + cell_w, c] = (1 - alpha) * background[...] + alpha * cell[:, :, c]\<close>.
  Indexing a two-dimensional background with three indices, or a channel it does not have,
  is an \<open>IndexError\<close>.
\<close>

definition assign_channel ::
  "'f fops \<Rightarrow> 'f \<Rightarrow> ndarray \<Rightarrow> ndarray \<Rightarrow> coord \<Rightarrow> int \<Rightarrow> int \<Rightarrow> nat \<Rightarrow> py_error + ndarray" where
  "assign_channel fo transparency background cell co cell_h cell_w c =
     (if length (shape background) \<noteq> 3 \<or> shape background ! 2 \<le> c then Inl IndexError
      else
        let r0 = slice_bound (coord_h co) (shape background ! 0);
            r1 = slice_bound (coord_h co + cell_h) (shape background ! 0);
            c0 = slice_bound (coord_w co) (shape background ! 1);
            c1 = slice_bound (coord_w co + cell_w) (shape background ! 1);
            nr = r1 - r0; nc = c1 - c0
        in if broadcastable (shape cell ! 0) nr \<and> broadcastable (shape cell ! 1) nc then
             Inr (background \<lparr> pix :=
                    zip_range r0 nr (blend_row fo transparency c c0 nc)
                      (pix background) (broadcast_to nr (pix cell)) \<rparr>)
           else Inl (ValueError ''operands could not be broadcast together''))"

fun assign_channels ::
  "'f fops \<Rightarrow> 'f \<Rightarrow> ndarray \<Rightarrow> ndarray \<Rightarrow> coord \<Rightarrow> int \<Rightarrow> int \<Rightarrow> nat list \<Rightarrow> py_error + ndarray" where
  "assign_channels fo transparency background cell co cell_h cell_w [] = Inr background"
| "assign_channels fo transparency background cell co cell_h cell_w (c # cs) =
     (case assign_channel fo transparency background cell co cell_h cell_w c of
        Inl e \<Rightarrow> Inl e
      | Inr background' \<Rightarrow> assign_channels fo transparency background' cell co cell_h cell_w cs)"

text \<open>
  Lines 127 to 142 of \<open>_overlay\<close>: clip the height and width at the background's bounds,
  slice the sprite, and blend when the last entry of the sprite's shape is 4.
  \<open>cell[:, :, 3]\<close> on a two-dimensional sprite is an \<open>IndexError\<close>.
\<close>

definition overlay_blend ::
  "'f fops \<Rightarrow> ndarray \<Rightarrow> ndarray \<Rightarrow> int \<Rightarrow> int \<Rightarrow> coord \<Rightarrow> 'f \<Rightarrow> py_error + ndarray" where
  "overlay_blend fo background cell cell_h0 cell_w0 co transparency =
     (let cell_h = (if coord_h co + cell_h0 > int (shape background ! 0)
                    then int (shape background ! 0) - coord_h co else cell_h0);
          cell_w = (if coord_w co + cell_w0 > int (shape background ! 1)
                    then int (shape background ! 1) - coord_w co else cell_w0);
          cell' = slice2 cell cell_h cell_w
      in if last (shape cell') = 4 then
           (if length (shape cell') \<noteq> 3 then Inl IndexError
            else assign_channels fo transparency background cell' co cell_h cell_w [0, 1, 2])
         else Inr background)"

section \<open>Random sources, codec, asset provider\<close>

text \<open>
  The two process-wide generators (\<open>random\<close> and \<open>np.random\<close>) are modelled by the
  sequence of raw outputs each will still deliver; a draw takes the first one. A finite
  run consumes finitely many, so every run of the program is the run on some such
  sequence (an exhausted one goes on delivering 0).
\<close>

type_synonym rng = "nat list"

fun next_raw :: "rng \<Rightarrow> nat \<times> rng" where
  "next_raw [] = (0, [])"
| "next_raw (k # g) = (k, g)"

text \<open>
  \<open>random.randint(a, b)\<close>: a \<open>ValueError\<close> on an empty range, raised before anything is
  drawn; else \<open>a + k\<close>, where \<open>k\<close> is what the generator delivers for the \<open>b - a + 1\<close>
  values of the range (in CPython \<open>a + self._randbelow(b - a + 1)\<close>, each \<open>k\<close> below the
  width as likely as any other). The raw output is reduced into the range.
\<close>

definition randint :: "int \<Rightarrow> int \<Rightarrow> rng \<Rightarrow> (py_error + int) \<times> rng" where
  "randint a b g =
     (if a > b then (Inl (ValueError ''empty range for randrange()''), g)
      else case next_raw g of (k, g') \<Rightarrow> (Inr (a + int k mod (b - a + 1)), g'))"

definition uniform :: "'f fops \<Rightarrow> 'f \<Rightarrow> 'f \<Rightarrow> rng \<Rightarrow> 'f \<times> rng" where
  "uniform fo a b g = (case next_raw g of (k, g') \<Rightarrow> (funiform fo a b k, g'))"

definition random :: "'f fops \<Rightarrow> rng \<Rightarrow> 'f \<times> rng" where
  "random fo g = (case next_raw g of (k, g') \<Rightarrow> (frandom fo k, g'))"

text \<open>\<open>np.random.randint(0, 256, size=3)\<close>\<close>

definition np_randint3 :: "rng \<Rightarrow> u8 list \<times> rng" where
  "np_randint3 g =
     (case next_raw g of (k1, g1) \<Rightarrow>
      case next_raw g1 of (k2, g2) \<Rightarrow>
      case next_raw g2 of (k3, g3) \<Rightarrow>
        ([word_of_nat (k1 mod 256), word_of_nat (k2 mod 256), word_of_nat (k3 mod 256)], g3))"

text \<open>
  The OpenCV functions the generator calls are parameters. \<open>imread p alpha\<close> is
  \<open>cv2.imread(p, IMREAD_UNCHANGED if alpha else IMREAD_COLOR)\<close>, with \<open>None\<close> for a file
  that does not decode; \<open>resize a w h\<close> is \<open>cv2.resize(a, (w, h))\<close>;
  \<open>warpAffine a m w h\<close> is \<open>cv2.warpAffine(a, m, (w, h))\<close>; both can raise
  \<open>cv2.error\<close>. The rotation matrix is the 2 by 3 matrix of \<open>getRotationMatrix2D\<close>
  (with scale 1.0), as its two rows.
\<close>

type_synonym 'f mat23 = "('f \<times> 'f \<times> 'f) \<times> ('f \<times> 'f \<times> 'f)"

record 'f codec =
  imread :: "string \<Rightarrow> bool \<Rightarrow> ndarray option"
  resize :: "ndarray \<Rightarrow> int \<Rightarrow> int \<Rightarrow> py_error + ndarray"
  getRotationMatrix2D :: "int \<times> int \<Rightarrow> int \<Rightarrow> 'f mat23"
  warpAffine :: "ndarray \<Rightarrow> 'f mat23 \<Rightarrow> int \<Rightarrow> int \<Rightarrow> py_error + ndarray"

text \<open>
  The asset provider (\<open>DatasetLoader\<close>, imported by the generator) with a state \<open>'p\<close>
  of its own, and the functions \<open>random.seed\<close> and \<open>np.random.seed\<close>.
\<close>

record ('f, 'p) env =
  flt :: "'f fops"
  cv :: "'f codec"
  get_random_background :: "'p \<Rightarrow> string \<times> 'p"
  get_random_cell :: "'p \<Rightarrow> string \<times> 'p"
  py_seed :: "int \<Rightarrow> rng"
  np_seed :: "int \<Rightarrow> rng"

text \<open>
  What a run can change: the two generators, the provider, the directories, and the image
  files written (\<open>cv2.imwrite\<close>, in the order of the calls). \<open>requested\<close> is a trace,
  not a variable of the program: the paths the provider has returned, each with the \<open>with_alpha\<close> flag it was loaded with, latest last.
\<close>

record 'p world =
  py_rng :: rng
  np_rng :: rng
  provider :: 'p
  requested :: "(string \<times> bool) list"
  dirs :: "string list"
  written :: "(string \<times> ndarray) list"

text \<open>The fields of \<open>ImageGenerator\<close>; \<open>img_size\<close> is \<open>(height, width)\<close>.\<close>

record config =
  img_size :: "int \<times> int"
  num_imgs :: int
  min_cells :: int
  max_cells :: int

text \<open>
  The seeding of \<open>__init__\<close>: with a seed, \<open>random.seed(seed)\<close> resets the first
  generator, then \<open>np.random.seed(seed)\<close> the second. \<open>random.seed\<close> takes every
  integer; \<open>np.random.seed\<close> raises a \<open>ValueError\<close> for a seed outside
  \<open>[0, 2^32 - 1]\<close>, and the construction fails with it, the first generator already reset.
\<close>

definition init :: "('f, 'p) env \<Rightarrow> int option \<Rightarrow> 'p world \<Rightarrow> (py_error + unit) \<times> 'p world" where
  "init e seed wd =
     (case seed of
        None \<Rightarrow> (Inr (), wd)
      | Some s \<Rightarrow>
          (let wd1 = wd \<lparr> py_rng := py_seed e s \<rparr> in
           if s < 0 \<or> 2 ^ 32 \<le> s
           then (Inl (ValueError ''Seed must be between 0 and 2**32 - 1''), wd1)
           else (Inr (), wd1 \<lparr> np_rng := np_seed e s \<rparr>)))"

section \<open>The operations of \<open>ImageGenerator\<close>\<close>

definition load_image ::
  "('f, 'p) env \<Rightarrow> config \<Rightarrow> string \<Rightarrow> bool \<Rightarrow> bool \<Rightarrow> py_error + ndarray" where
  "load_image e cfg image_path do_resize with_alpha =
     (case imread (cv e) image_path with_alpha of
        None \<Rightarrow> Inl (ValueError (''Error: Failed to load image '' @ image_path))
      | Some img \<Rightarrow>
          if do_resize then resize (cv e) img (snd (img_size cfg)) (fst (img_size cfg))
          else Inr img)"

text \<open>\<open>int(n * 0.01)\<close>, the margin \<open>_generate_cell_coords\<close> leaves at the far edge.\<close>

definition margin :: "'f fops \<Rightarrow> int \<Rightarrow> int" where
  "margin fo n = to_int fo (fmul fo (of_int_f fo n) (of_ratio fo 1 100))"

fun gen_coords :: "'f fops \<Rightarrow> config \<Rightarrow> nat \<Rightarrow> rng \<Rightarrow> (py_error + coord list) \<times> rng" where
  "gen_coords fo cfg 0 g = (Inr [], g)"
| "gen_coords fo cfg (Suc n) g =
     (case randint 0 (fst (img_size cfg) - margin fo (fst (img_size cfg))) g of
        (Inl err, g1) \<Rightarrow> (Inl err, g1)
      | (Inr ch, g1) \<Rightarrow>
          (case randint 0 (snd (img_size cfg) - margin fo (snd (img_size cfg))) g1 of
             (Inl err, g2) \<Rightarrow> (Inl err, g2)
           | (Inr cw, g2) \<Rightarrow>
               (case gen_coords fo cfg n g2 of
                  (Inl err, g3) \<Rightarrow> (Inl err, g3)
                | (Inr cs, g3) \<Rightarrow> (Inr (\<lparr> coord_h = ch, coord_w = cw \<rparr> # cs), g3))))"

text \<open>The comprehension runs \<open>range(count)\<close>, which is empty for a negative count.\<close>

definition generate_cell_coords ::
  "('f, 'p) env \<Rightarrow> config \<Rightarrow> int \<Rightarrow> rng \<Rightarrow> (py_error + coord list) \<times> rng" where
  "generate_cell_coords e cfg count g = gen_coords (flt e) cfg (nat count) g"

text \<open>The size of the canvas \<open>_rotate_cell\<close> computes from the matrix: \<open>(new_h, new_w)\<close>.\<close>

definition rot_dims :: "'f fops \<Rightarrow> 'f mat23 \<Rightarrow> int \<Rightarrow> int \<Rightarrow> int \<times> int" where
  "rot_dims fo m cell_h cell_w =
     (case m of ((m00, m01, m02), (m10, m11, m12)) \<Rightarrow>
        (to_int fo (fadd fo (fmul fo (of_int_f fo cell_h) (fabs fo m00))
                            (fmul fo (of_int_f fo cell_w) (fabs fo m01))),
         to_int fo (fadd fo (fmul fo (of_int_f fo cell_h) (fabs fo m01))
                            (fmul fo (of_int_f fo cell_w) (fabs fo m00)))))"

definition rotate_cell ::
  "('f, 'p) env \<Rightarrow> ndarray \<Rightarrow> int \<Rightarrow> int \<Rightarrow> rng \<Rightarrow> (py_error + ndarray \<times> int \<times> int) \<times> rng" where
  "rotate_cell e cell cell_h cell_w g =
     (let center = (cell_w div 2, cell_h div 2) in
      case randint 0 360 g of
        (Inl err, g1) \<Rightarrow> (Inl err, g1)
      | (Inr angle, g1) \<Rightarrow>
          (let fo = flt e;
               matrix = getRotationMatrix2D (cv e) center angle;
               (new_h, new_w) = rot_dims fo matrix cell_h cell_w
           in case matrix of ((m00, m01, m02), (m10, m11, m12)) \<Rightarrow>
                (let m02' = fadd fo m02 (fsub fo (fdiv fo (of_int_f fo new_w) (of_int_f fo 2))
                                             (of_int_f fo (fst center)));
                     m12' = fadd fo m12 (fsub fo (fdiv fo (of_int_f fo new_h) (of_int_f fo 2))
                                             (of_int_f fo (snd center)))
                 in case warpAffine (cv e) cell ((m00, m01, m02'), (m10, m11, m12')) new_w new_h of
                      Inl err \<Rightarrow> (Inl err, g1)
                    | Inr rotated \<Rightarrow> (Inr (rotated, new_h, new_w), g1))))"

text \<open>
  \<open>_overlay\<close>: the sprite is resized to a square of side
  \<open>int(min(self.img_size) * scale)\<close>, rotated, and blended (\<open>overlay_blend\<close> above).
\<close>

definition overlay ::
  "('f, 'p) env \<Rightarrow> config \<Rightarrow> ndarray \<Rightarrow> ndarray \<Rightarrow> coord \<Rightarrow> 'f \<Rightarrow> rng \<Rightarrow> (py_error + ndarray) \<times> rng" where
  "overlay e cfg background cell co transparency g =
     (let fo = flt e in
      case uniform fo (of_ratio fo 5 100) (of_ratio fo 20 100) g of (u, g1) \<Rightarrow>
        (let scale = fround2 fo u;
             cell_size = to_int fo (fmul fo
                           (of_int_f fo (min (fst (img_size cfg)) (snd (img_size cfg)))) scale)
         in case resize (cv e) cell cell_size cell_size of
              Inl err \<Rightarrow> (Inl err, g1)
            | Inr cell1 \<Rightarrow>
                (case rotate_cell e cell1 cell_size cell_size g1 of
                   (Inl err, g2) \<Rightarrow> (Inl err, g2)
                 | (Inr (cell2, cell_h, cell_w), g2) \<Rightarrow>
                     (overlay_blend fo background cell2 cell_h cell_w co transparency, g2))))"

text \<open>
  \<open>noise_image\<close>: for every pixel, in row order, one draw of \<open>random.random()\<close>, and
  below \<open>percent / 100\<close> three values of \<open>np.random\<close> stored as the pixel. The store
  \<open>image[i, j] = ...\<close> of three values needs a pixel of three channels (\<open>three\<close>), and
  is a \<open>ValueError\<close> otherwise. The state is the pair of the two generators.
\<close>

fun noise_row ::
  "'f fops \<Rightarrow> bool \<Rightarrow> 'f \<Rightarrow> u8 list list \<Rightarrow> rng \<times> rng \<Rightarrow> (py_error + u8 list list) \<times> (rng \<times> rng)" where
  "noise_row fo three percent [] s = (Inr [], s)"
| "noise_row fo three percent (px # pxs) (pg, ng) =
     (case random fo pg of (r, pg1) \<Rightarrow>
        if fless fo r (fdiv fo percent (of_int_f fo 100)) then
          (case np_randint3 ng of (v, ng1) \<Rightarrow>
             if three then
               (case noise_row fo three percent pxs (pg1, ng1) of
                  (Inl err, s) \<Rightarrow> (Inl err, s)
                | (Inr rest, s) \<Rightarrow> (Inr (v # rest), s))
             else (Inl (ValueError ''could not broadcast input array''), (pg1, ng1)))
        else
          (case noise_row fo three percent pxs (pg1, ng) of
             (Inl err, s) \<Rightarrow> (Inl err, s)
           | (Inr rest, s) \<Rightarrow> (Inr (px # rest), s)))"

fun noise_rows ::
  "'f fops \<Rightarrow> bool \<Rightarrow> 'f \<Rightarrow> u8 list list list \<Rightarrow> rng \<times> rng \<Rightarrow>
     (py_error + u8 list list list) \<times> (rng \<times> rng)" where
  "noise_rows fo three percent [] s = (Inr [], s)"
| "noise_rows fo three percent (row # rows) s =
     (case noise_row fo three percent row s of
        (Inl err, s1) \<Rightarrow> (Inl err, s1)
      | (Inr row', s1) \<Rightarrow>
          (case noise_rows fo three percent rows s1 of
             (Inl err, s2) \<Rightarrow> (Inl err, s2)
           | (Inr rows', s2) \<Rightarrow> (Inr (row' # rows'), s2)))"

definition noise_image ::
  "'f fops \<Rightarrow> ndarray \<Rightarrow> 'f \<Rightarrow> rng \<times> rng \<Rightarrow> (py_error + ndarray) \<times> (rng \<times> rng)" where
  "noise_image fo img percent s =
     (case noise_rows fo (length (shape img) = 3 \<and> shape img ! 2 = 3) percent (pix img) s of
        (Inl err, s1) \<Rightarrow> (Inl err, s1)
      | (Inr rows, s1) \<Rightarrow> (Inr (img \<lparr> pix := rows \<rparr>), s1))"

definition apply_random_noise ::
  "'f fops \<Rightarrow> ndarray \<Rightarrow> rng \<times> rng \<Rightarrow> (py_error + ndarray) \<times> (rng \<times> rng)" where
  "apply_random_noise fo img s =
     (case uniform fo (of_int_f fo 1) (of_int_f fo 50) (fst s) of
        (noise_percent, pg1) \<Rightarrow> noise_image fo img noise_percent (pg1, snd s))"

text \<open>
  The loop of \<open>_generate_image\<close> over the sprites: one asset request, one load, one draw of
  the transparency and one \<open>_overlay\<close> per placement. \<open>coords\<close> has one entry for each
  \<open>i\<close> of \<open>range(num_cells_this_img)\<close>, so the loop is the recursion over that list.
\<close>

fun overlay_cells ::
  "('f, 'p) env \<Rightarrow> config \<Rightarrow> ndarray \<Rightarrow> coord list \<Rightarrow> 'p world \<Rightarrow> (py_error + ndarray) \<times> 'p world" where
  "overlay_cells e cfg background [] wd = (Inr background, wd)"
| "overlay_cells e cfg background (co # rest) wd =
     (case get_random_cell e (provider wd) of (path, p1) \<Rightarrow>
        (let wd1 = wd \<lparr> provider := p1, requested := requested wd @ [(path, True)] \<rparr> in
         case load_image e cfg path True True of
           Inl err \<Rightarrow> (Inl err, wd1)
         | Inr cell \<Rightarrow>
             (case uniform (flt e) (of_ratio (flt e) 6 10) (of_int_f (flt e) 1) (py_rng wd1) of
                (transparency, g1) \<Rightarrow>
                  (case overlay e cfg background cell co transparency g1 of
                     (Inl err, g2) \<Rightarrow> (Inl err, wd1 \<lparr> py_rng := g2 \<rparr>)
                   | (Inr background', g2) \<Rightarrow>
                       overlay_cells e cfg background' rest (wd1 \<lparr> py_rng := g2 \<rparr>)))))"

definition generate_image ::
  "('f, 'p) env \<Rightarrow> config \<Rightarrow> 'p world \<Rightarrow> (py_error + ndarray) \<times> 'p world" where
  "generate_image e cfg wd =
     (case randint (min_cells cfg) (max_cells cfg) (py_rng wd) of
        (Inl err, g) \<Rightarrow> (Inl err, wd \<lparr> py_rng := g \<rparr>)
      | (Inr num_cells_this_img, g) \<Rightarrow>
          (case generate_cell_coords e cfg num_cells_this_img g of
             (Inl err, g1) \<Rightarrow> (Inl err, wd \<lparr> py_rng := g1 \<rparr>)
           | (Inr coords, g1) \<Rightarrow>
               (case get_random_background e (provider wd) of (path, p1) \<Rightarrow>
                  (let wd1 = wd \<lparr> py_rng := g1, provider := p1,
                                   requested := requested wd @ [(path, False)] \<rparr> in
                   case load_image e cfg path True False of
                     Inl err \<Rightarrow> (Inl err, wd1)
                   | Inr background \<Rightarrow>
                       (case overlay_cells e cfg background coords wd1 of
                          (Inl err, wd2) \<Rightarrow> (Inl err, wd2)
                        | (Inr background', wd2) \<Rightarrow>
                            (case apply_random_noise (flt e) background' (py_rng wd2, np_rng wd2) of
                               (Inl err, (pg, ng)) \<Rightarrow>
                                 (Inl err, wd2 \<lparr> py_rng := pg, np_rng := ng \<rparr>)
                             | (Inr noisy, (pg, ng)) \<Rightarrow>
                                 (Inr noisy, wd2 \<lparr> py_rng := pg, np_rng := ng \<rparr>)))))))"

text \<open>The file name \<open>os.path.join(save_dir, f"result_{idx}.png")\<close>.\<close>

definition digit :: "nat \<Rightarrow> char" where
  "digit d = char_of (48 + d)"

function decimal :: "nat \<Rightarrow> string" where
  "decimal n = (if n < 10 then [digit n] else decimal (n div 10) @ [digit (n mod 10)])"
  by pat_completeness auto
termination
  by (relation "measure id") auto

definition path_join :: "string \<Rightarrow> string \<Rightarrow> string" where
  "path_join a b = (if a = [] \<or> last a = CHR ''/'' then a @ b else a @ ''/'' @ b)"

definition result_path :: "string \<Rightarrow> nat \<Rightarrow> string" where
  "result_path save_dir idx = path_join save_dir (''result_'' @ decimal idx @ ''.png'')"

text \<open>
  The loop of \<open>generate_and_save\<close>, with \<open>n\<close> images still to make from index \<open>idx\<close>. An
  exception of \<open>_generate_image\<close> ends it.
\<close>

fun save_loop ::
  "('f, 'p) env \<Rightarrow> config \<Rightarrow> string \<Rightarrow> nat \<Rightarrow> nat \<Rightarrow> 'p world \<Rightarrow> (py_error + unit) \<times> 'p world" where
  "save_loop e cfg save_dir idx 0 wd = (Inr (), wd)"
| "save_loop e cfg save_dir idx (Suc n) wd =
     (case generate_image e cfg wd of
        (Inl err, wd1) \<Rightarrow> (Inl err, wd1)
      | (Inr img, wd1) \<Rightarrow>
          save_loop e cfg save_dir (Suc idx) n
            (wd1 \<lparr> written := written wd1 @ [(result_path save_dir idx, img)] \<rparr>))"

definition generate_and_save ::
  "('f, 'p) env \<Rightarrow> config \<Rightarrow> string \<Rightarrow> 'p world \<Rightarrow> (py_error + unit) \<times> 'p world" where
  "generate_and_save e cfg save_dir wd =
     save_loop e cfg save_dir 0 (nat (num_imgs cfg))
       (if save_dir \<in> set (dirs wd) then wd else wd \<lparr> dirs := dirs wd @ [save_dir] \<rparr>)"

text \<open>
  A generation run: the construction \<open>ImageGenerator(..., seed=seed)\<close>, and on the object
  \<open>generate_and_save(save_dir)\<close>.
\<close>

definition seeded_run ::
  "('f, 'p) env \<Rightarrow> config \<Rightarrow> int option \<Rightarrow> string \<Rightarrow> 'p world \<Rightarrow> (py_error + unit) \<times> 'p world" where
  "seeded_run e cfg seed save_dir wd =
     (case init e seed wd of
        (Inl err, wd1) \<Rightarrow> (Inl err, wd1)
      | (Inr u, wd1) \<Rightarrow> generate_and_save e cfg save_dir wd1)"

section \<open>Properties of a run\<close>

text \<open>
  The raw outputs behind a list of placements: alternately one below the number \<open>a\<close> of
  rows to choose from and one below the number \<open>b\<close> of columns.
\<close>

fun raws_below :: "nat \<Rightarrow> nat \<Rightarrow> nat list \<Rightarrow> bool" where
  "raws_below a b [] \<longleftrightarrow> True"
| "raws_below a b [x] \<longleftrightarrow> False"
| "raws_below a b (x # y # t) \<longleftrightarrow> x < a \<and> y < b \<and> raws_below a b t"

text \<open>
  What of the world a run reads: the two generators and the provider. The trace, the
  directories and the files written before are only added to.
\<close>

definition same_sources :: "'p world \<Rightarrow> 'p world \<Rightarrow> bool" where
  "same_sources wd1 wd2 \<longleftrightarrow>
     py_rng wd1 = py_rng wd2 \<and> np_rng wd1 = np_rng wd2 \<and> provider wd1 = provider wd2"


text \<open>
  The exception a result carries, if any; and what a stretch of the trace \<open>requested\<close>
  says about a run that ended with failure \<open>f\<close>: a request that does not decode is the
  last one made, and the run has failed with the \<open>ValueError\<close> naming its path.
\<close>

definition failure :: "py_error + 'a \<Rightarrow> py_error option" where
  "failure r = (case r of Inl err \<Rightarrow> Some err | Inr v \<Rightarrow> None)"

definition decodes :: "('f, 'p) env \<Rightarrow> string \<times> bool \<Rightarrow> bool" where
  "decodes e x \<longleftrightarrow> imread (cv e) (fst x) (snd x) \<noteq> None"

definition aborts_at_undecodable ::
  "('f, 'p) env \<Rightarrow> py_error option \<Rightarrow> (string \<times> bool) list \<Rightarrow> bool" where
  "aborts_at_undecodable e f new \<longleftrightarrow>
     (\<forall>x \<in> set new. \<not> decodes e x \<longrightarrow>
        x = last new \<and> f = Some (ValueError (''Error: Failed to load image '' @ fst x)))"

text \<open>
  What a run on colour assets relies on from OpenCV. \<open>nonempty\<close>: the array has rows and
  columns. \<open>codec_ok\<close>: a decoded file is a well-formed, non-empty array of three
  dimensions, with three channels under \<open>IMREAD_COLOR\<close> (a grey-scale file, which
  \<open>IMREAD_UNCHANGED\<close> decodes to two dimensions, is not among the assets then);
  \<open>resize\<close> and \<open>warpAffine\<close> to a positive size \<open>(w, h)\<close> of a well-formed, non-empty
  array succeed and give a well-formed array of \<open>h\<close> rows and \<open>w\<close> columns with the channels
  of their argument. Nothing is assumed of a size that is not positive.
\<close>

definition nonempty :: "ndarray \<Rightarrow> bool" where
  "nonempty a \<longleftrightarrow> 0 < shape a ! 0 \<and> 0 < shape a ! 1"

definition codec_ok :: "('f, 'p) env \<Rightarrow> bool" where
  "codec_ok e \<longleftrightarrow>
     (\<forall>p a. imread (cv e) p False = Some a \<longrightarrow>
        wf_array a \<and> nonempty a \<and> length (shape a) = 3 \<and> shape a ! 2 = 3) \<and>
     (\<forall>p a. imread (cv e) p True = Some a \<longrightarrow>
        wf_array a \<and> nonempty a \<and> length (shape a) = 3) \<and>
     (\<forall>a w h. wf_array a \<and> nonempty a \<and> 0 < w \<and> 0 < h \<longrightarrow>
        (\<exists>b. resize (cv e) a w h = Inr b \<and> wf_array b \<and>
             shape b = nat h # nat w # drop 2 (shape a))) \<and>
     (\<forall>a m w h. wf_array a \<and> nonempty a \<and> 0 < w \<and> 0 < h \<longrightarrow>
        (\<exists>b. warpAffine (cv e) a m w h = Inr b \<and> wf_array b \<and>
             shape b = nat h # nat w # drop 2 (shape a)))"

text \<open>
  What the generator relies on from the configuration and the arithmetic: a target size
  with rows and columns, whose margins \<open>int(n * 0.01)\<close> lie in \<open>[0, n]\<close>; a sprite side
  \<open>int(min(img_size) * scale)\<close> of at least one pixel for every draw of the scale; a
  rotated canvas of at least one pixel each way for every sprite side of at least one.
\<close>

definition sizes_ok :: "('f, 'p) env \<Rightarrow> config \<Rightarrow> bool" where
  "sizes_ok e cfg \<longleftrightarrow>
     0 < fst (img_size cfg) \<and> 0 < snd (img_size cfg) \<and>
     0 \<le> margin (flt e) (fst (img_size cfg)) \<and>
     margin (flt e) (fst (img_size cfg)) \<le> fst (img_size cfg) \<and>
     0 \<le> margin (flt e) (snd (img_size cfg)) \<and>
     margin (flt e) (snd (img_size cfg)) \<le> snd (img_size cfg) \<and>
     (\<forall>k. 0 < to_int (flt e) (fmul (flt e)
               (of_int_f (flt e) (min (fst (img_size cfg)) (snd (img_size cfg))))
               (fround2 (flt e)
                  (funiform (flt e) (of_ratio (flt e) 5 100) (of_ratio (flt e) 20 100) k)))) \<and>
     (\<forall>c angle n. 0 < n \<longrightarrow>
        0 < fst (rot_dims (flt e) (getRotationMatrix2D (cv e) c angle) n n) \<and>
        0 < snd (rot_dims (flt e) (getRotationMatrix2D (cv e) c angle) n n))"

text \<open>Every path the provider can return decodes.\<close>

definition assets_ok :: "('f, 'p) env \<Rightarrow> bool" where
  "assets_ok e \<longleftrightarrow>
     (\<forall>s. decodes e (fst (get_random_background e s), False)) \<and>
     (\<forall>s. decodes e (fst (get_random_cell e s), True))"

section \<open>An instance to run the model on\<close>

text \<open>
  Exact arithmetic, the rotation matrix of \<open>getRotationMatrix2D\<close> over the reals, a
  nearest-neighbour resampling for \<open>resize\<close> and (whatever the matrix) for \<open>warpAffine\<close>,
  two files (a colour background, and a sprite that has an alpha channel under
  \<open>IMREAD_UNCHANGED\<close>), and a provider that counts its calls and hands out the same two
  paths.
\<close>

definition ideal_rotation :: "int \<times> int \<Rightarrow> int \<Rightarrow> real mat23" where
  "ideal_rotation c angle =
     (let a = cos (real_of_int angle * pi / 180); b = sin (real_of_int angle * pi / 180);
          cx = real_of_int (fst c); cy = real_of_int (snd c)
      in ((a, b, (1 - a) * cx - b * cy), (- b, a, b * cx + (1 - a) * cy)))"

definition resample :: "ndarray \<Rightarrow> nat \<Rightarrow> nat \<Rightarrow> ndarray" where
  "resample a nh nw =
     \<lparr> shape = nh # nw # drop 2 (shape a),
       pix = map (\<lambda>i. map (\<lambda>j. pix a ! (i * (shape a ! 0) div nh) ! (j * (shape a ! 1) div nw))
                    [0..<nw]) [0..<nh] \<rparr>"

definition demo_resize :: "ndarray \<Rightarrow> int \<Rightarrow> int \<Rightarrow> py_error + ndarray" where
  "demo_resize a w h =
     (if w \<le> 0 \<or> h \<le> 0 \<or> \<not> nonempty a then Inl CvError else Inr (resample a (nat h) (nat w)))"

definition demo_imread :: "string \<Rightarrow> bool \<Rightarrow> ndarray option" where
  "demo_imread p with_alpha =
     (if p = ''bg.png'' then Some \<lparr> shape = [1, 2, 3], pix = [[[10, 20, 30], [40, 50, 60]]] \<rparr>
      else if p = ''cell.png'' then
        (if with_alpha then Some \<lparr> shape = [1, 1, 4], pix = [[[200, 100, 50, 255]]] \<rparr>
         else Some \<lparr> shape = [1, 1, 3], pix = [[[200, 100, 50]]] \<rparr>)
      else None)"

definition demo_codec :: "real codec" where
  "demo_codec = \<lparr> imread = demo_imread, resize = demo_resize,
     getRotationMatrix2D = ideal_rotation,
     warpAffine = (\<lambda>a m w h. demo_resize a w h) \<rparr>"

definition demo_env :: "(real, nat) env" where
  "demo_env = \<lparr> flt = ideal, cv = demo_codec,
     get_random_background = (\<lambda>s. (''bg.png'', Suc s)),
     get_random_cell = (\<lambda>s. (''cell.png'', Suc s)),
     py_seed = (\<lambda>s. map (\<lambda>i. nat \<bar>s\<bar> * 7919 + i * 104729) [0..<32]),
     np_seed = (\<lambda>s. map (\<lambda>i. nat \<bar>s\<bar> * 31 + i * 17) [0..<32]) \<rparr>"

text \<open>The same instance with a provider whose background path does not decode.\<close>

definition broken_env :: "(real, nat) env" where
  "broken_env = demo_env \<lparr> get_random_background := (\<lambda>s. (''missing.png'', Suc s)) \<rparr>"

definition world0 :: "nat world" where
  "world0 = \<lparr> py_rng = [], np_rng = [], provider = 0, requested = [], dirs = [], written = [] \<rparr>"

definition default_config :: config where
  "default_config = \<lparr> img_size = (480, 640), num_imgs = 5, min_cells = 5, max_cells = 25 \<rparr>"

section \<open>Lists written through slices\<close>


lemma length_zip_range:
  "length ys = n \<Longrightarrow> s + n \<le> length xs \<Longrightarrow> length (zip_range s n f xs ys) = length xs"
  by (simp add: zip_range_def)

lemma nth_zip_range:
  assumes "length ys = n" "s + n \<le> length xs" "i < length xs"
  shows "zip_range s n f xs ys ! i = (if s \<le> i \<and> i < s + n then f (xs ! i) (ys ! (i - s)) else xs ! i)"
proof -
  define A where "A = take s xs"
  define B where "B = map2 f (take n (drop s xs)) ys"
  define C where "C = drop (s + n) xs"
  have lA: "length A = s" and lB: "length B = n" using assms by (simp_all add: A_def B_def)
  have z: "zip_range s n f xs ys = A @ B @ C" by (simp add: zip_range_def A_def B_def C_def)
  consider "i < s" | "s \<le> i" "i < s + n" | "s + n \<le> i" by linarith
  then show ?thesis
  proof cases
    case 1
    then show ?thesis using lA by (simp add: z nth_append A_def)
  next
    case 2
    then have k: "i - s < n" "\<not> i < s" by linarith+
    then have "(A @ B @ C) ! i = B ! (i - s)" using lA lB by (simp add: nth_append)
    also have "\<dots> = f (xs ! i) (ys ! (i - s))" using k 2 assms by (simp add: B_def)
    finally show ?thesis using 2 by (simp add: z)
  next
    case 3
    then have k: "\<not> i - s < n" "\<not> i < s" by linarith+
    then have "(A @ B @ C) ! i = C ! (i - s - n)" using lA lB by (simp add: nth_append)
    also have "\<dots> = xs ! (s + n + (i - s - n))" using assms 3 by (simp add: C_def)
    also have "s + n + (i - s - n) = i" using 3 by linarith
    finally show ?thesis using 3 by (simp add: z)
  qed
qed


lemma wf_array_nth:
  "wf_array a \<longleftrightarrow>
     (length (shape a) = 2 \<or> length (shape a) = 3) \<and>
     length (pix a) = shape a ! 0 \<and>
     (\<forall>i < length (pix a). length (pix a ! i) = shape a ! 1 \<and>
        (\<forall>j < length (pix a ! i).
           length (pix a ! i ! j) = (if length (shape a) = 3 then shape a ! 2 else 1)))"
  unfolding wf_array_def by (simp add: all_set_conv_all_nth)

lemma wf_array3:
  "shape a = [H, W, C] \<Longrightarrow>
   wf_array a \<longleftrightarrow> length (pix a) = H \<and>
     (\<forall>i < H. length (pix a ! i) = W \<and> (\<forall>j < W. length (pix a ! i ! j) = C))"
  by (auto simp: wf_array_nth)

lemma slice_bound_nat: "0 \<le> n \<Longrightarrow> slice_bound n len = min (nat n) len"
  by (simp add: slice_bound_def)

lemma shape_slice2:
  "shape a = [sh, sw, C] \<Longrightarrow> 0 \<le> ch \<Longrightarrow> 0 \<le> cw \<Longrightarrow>
   shape (slice2 a ch cw) = [min (nat ch) sh, min (nat cw) sw, C]"
  by (simp add: slice2_def slice_bound_nat Let_def)

lemma pix_slice2:
  "shape a = [sh, sw, C] \<Longrightarrow> wf_array a \<Longrightarrow> 0 \<le> ch \<Longrightarrow> 0 \<le> cw \<Longrightarrow>
   i < min (nat ch) sh \<Longrightarrow> j < min (nat cw) sw \<Longrightarrow>
   pix (slice2 a ch cw) ! i ! j = pix a ! i ! j"
  by (simp add: slice2_def slice_bound_nat Let_def wf_array3)

lemma wf_slice2:
  "shape a = [sh, sw, C] \<Longrightarrow> wf_array a \<Longrightarrow> 0 \<le> ch \<Longrightarrow> 0 \<le> cw \<Longrightarrow>
   wf_array (slice2 a ch cw)"
  by (simp add: wf_array3 [OF shape_slice2]) (simp add: slice2_def slice_bound_nat Let_def wf_array3)

lemma length_blend_px: "length (blend_px fo t c bp cp) = length bp"
  by (simp add: blend_px_def)

lemma assign_channel_ok:
  assumes bg: "wf_array bg" "shape bg = [H, W, C]" and c: "c < C"
    and cell: "wf_array cell" "shape cell = [nr, nc, K]"
    and co: "coord_h co = int r0" "coord_w co = int c0" "r0 + nr \<le> H" "c0 + nc \<le> W"
    and sz: "cell_h = int nr" "cell_w = int nc"
  shows "\<exists>bg'. assign_channel fo t bg cell co cell_h cell_w c = Inr bg' \<and>
           wf_array bg' \<and> shape bg' = [H, W, C] \<and>
           (\<forall>i < H. \<forall>j < W. pix bg' ! i ! j =
              (if r0 \<le> i \<and> i < r0 + nr \<and> c0 \<le> j \<and> j < c0 + nc
               then blend_px fo t c (pix bg ! i ! j) (pix cell ! (i - r0) ! (j - c0))
               else pix bg ! i ! j))"
proof -
  have lb: "length (pix bg) = H" "\<And>i. i < H \<Longrightarrow> length (pix bg ! i) = W"
    "\<And>i j. i < H \<Longrightarrow> j < W \<Longrightarrow> length (pix bg ! i ! j) = C"
    using bg by (simp_all add: wf_array3)
  have lc: "length (pix cell) = nr" "\<And>i. i < nr \<Longrightarrow> length (pix cell ! i) = nc"
    using cell by (simp_all add: wf_array3)
  have sb: "slice_bound (coord_h co) H = r0" "slice_bound (coord_h co + cell_h) H - r0 = nr"
    "slice_bound (coord_w co) W = c0" "slice_bound (coord_w co + cell_w) W - c0 = nc"
    using co sz by (simp_all add: slice_bound_def)
  define bg' where "bg' = bg \<lparr> pix := zip_range r0 nr (blend_row fo t c c0 nc) (pix bg)
                      (broadcast_to nr (pix cell)) \<rparr>"
  have eq: "assign_channel fo t bg cell co cell_h cell_w c = Inr bg'"
    using bg c cell sb by (simp add: assign_channel_def Let_def broadcastable_def bg'_def)
  have bc: "broadcast_to nr (pix cell) = pix cell" using lc by (simp add: broadcast_to_def)
  have rows: "\<And>i. i < H \<Longrightarrow> pix bg' ! i =
      (if r0 \<le> i \<and> i < r0 + nr then blend_row fo t c c0 nc (pix bg ! i) (pix cell ! (i - r0))
       else pix bg ! i)"
    using lb lc co by (simp add: bg'_def bc nth_zip_range)
  have brow: "\<And>i j. i < H \<Longrightarrow> r0 \<le> i \<Longrightarrow> i < r0 + nr \<Longrightarrow> j < W \<Longrightarrow>
      blend_row fo t c c0 nc (pix bg ! i) (pix cell ! (i - r0)) ! j =
        (if c0 \<le> j \<and> j < c0 + nc
         then blend_px fo t c (pix bg ! i ! j) (pix cell ! (i - r0) ! (j - c0))
         else pix bg ! i ! j)"
  proof -
    fix i j assume a: "i < H" "r0 \<le> i" "i < r0 + nr" "j < W"
    then have "i - r0 < nr" by linarith
    then have l: "length (pix cell ! (i - r0)) = nc" using lc by simp
    show "blend_row fo t c c0 nc (pix bg ! i) (pix cell ! (i - r0)) ! j =
        (if c0 \<le> j \<and> j < c0 + nc
         then blend_px fo t c (pix bg ! i ! j) (pix cell ! (i - r0) ! (j - c0))
         else pix bg ! i ! j)"
      using a l lb co by (simp add: blend_row_def broadcast_to_def nth_zip_range)
  qed
  have lrow: "\<And>i. i < H \<Longrightarrow> length (pix bg' ! i) = W"
  proof -
    fix i assume a: "i < H"
    show "length (pix bg' ! i) = W"
    proof (cases "r0 \<le> i \<and> i < r0 + nr")
      case True
      then have "i - r0 < nr" by linarith
      then have l: "length (pix cell ! (i - r0)) = nc" using lc by simp
      show ?thesis using a True l lb co
        by (simp add: rows blend_row_def broadcast_to_def length_zip_range)
    next
      case False
      then show ?thesis using a lb by (auto simp: rows)
    qed
  qed
  have px: "\<forall>i < H. \<forall>j < W. pix bg' ! i ! j =
              (if r0 \<le> i \<and> i < r0 + nr \<and> c0 \<le> j \<and> j < c0 + nc
               then blend_px fo t c (pix bg ! i ! j) (pix cell ! (i - r0) ! (j - c0))
               else pix bg ! i ! j)"
  proof (intro allI impI)
    fix i j assume a: "i < H" "j < W"
    show "pix bg' ! i ! j =
              (if r0 \<le> i \<and> i < r0 + nr \<and> c0 \<le> j \<and> j < c0 + nc
               then blend_px fo t c (pix bg ! i ! j) (pix cell ! (i - r0) ! (j - c0))
               else pix bg ! i ! j)"
    proof (cases "r0 \<le> i \<and> i < r0 + nr")
      case True
      then show ?thesis using a rows [OF a(1)] brow [of i j] by simp
    next
      case False
      then show ?thesis using a rows [OF a(1)] by auto
    qed
  qed
  have sh: "shape bg' = [H, W, C]" using bg by (simp add: bg'_def)
  have len: "length (pix bg') = H" using lb lc co by (simp add: bg'_def bc length_zip_range)
  have "wf_array bg'"
    using len lrow px lb by (simp add: wf_array3 [OF sh] length_blend_px)
  with eq sh px show ?thesis by blast
qed


lemma blend3_nth:
  assumes "length bp = C" "3 \<le> C" "k < C"
  shows "blend_px fo t 2 (blend_px fo t 1 (blend_px fo t 0 bp cp) cp) cp ! k =
           (if k < 3 then to_u8 fo (blend_value fo (alpha_of fo t cp) (bp ! k) (cp ! k))
            else bp ! k)"
proof -
  consider "k = 0" | "k = 1" | "k = 2" | "3 \<le> k" by linarith
  then show ?thesis using assms by cases (simp_all add: blend_px_def)
qed

lemma overlay_blend_rgba:
  assumes bg: "wf_array bg" "shape bg = [H, W, C]" and C: "3 \<le> C"
    and cell: "wf_array cell" "shape cell = [sh, sw, 4]"
    and co: "coord_h co = int r0" "coord_w co = int c0" "r0 \<le> H" "c0 \<le> W"
  shows "\<exists>bg'. overlay_blend fo bg cell (int sh) (int sw) co t = Inr bg' \<and>
           wf_array bg' \<and> shape bg' = [H, W, C] \<and>
           (\<forall>i < H. \<forall>j < W. \<forall>k < C. pix bg' ! i ! j ! k =
              (if r0 \<le> i \<and> i < r0 + sh \<and> c0 \<le> j \<and> j < c0 + sw \<and> k < 3
               then to_u8 fo (blend_value fo (alpha_of fo t (pix cell ! (i - r0) ! (j - c0)))
                      (pix bg ! i ! j ! k) (pix cell ! (i - r0) ! (j - c0) ! k))
               else pix bg ! i ! j ! k))"
proof -
  define nr where "nr = min sh (H - r0)"
  define nc where "nc = min sw (W - c0)"
  define cell_h where "cell_h = (if coord_h co + int sh > int (shape bg ! 0)
                    then int (shape bg ! 0) - coord_h co else int sh)"
  define cell_w where "cell_w = (if coord_w co + int sw > int (shape bg ! 1)
                    then int (shape bg ! 1) - coord_w co else int sw)"
  define cell' where "cell' = slice2 cell cell_h cell_w"
  have ch: "cell_h = int nr" and cw: "cell_w = int nc"
    using bg co by (auto simp: cell_h_def cell_w_def nr_def nc_def)
  have sh': "shape cell' = [nr, nc, 4]"
    using shape_slice2 [OF cell(2), of cell_h cell_w] ch cw
    by (simp add: cell'_def nr_def nc_def)
  have wf': "wf_array cell'"
    unfolding cell'_def using wf_slice2 [OF cell(2) cell(1), of cell_h cell_w] ch cw by simp
  have px': "\<And>i j. i < nr \<Longrightarrow> j < nc \<Longrightarrow> pix cell' ! i ! j = pix cell ! i ! j"
    unfolding cell'_def using pix_slice2 [OF cell(2) cell(1), of cell_h cell_w] ch cw
    by (simp add: nr_def nc_def)
  have fit: "r0 + nr \<le> H" "c0 + nc \<le> W" using co by (simp_all add: nr_def nc_def)
  have ov: "overlay_blend fo bg cell (int sh) (int sw) co t =
              assign_channels fo t bg cell' co cell_h cell_w [0, 1, 2]"
    using sh' by (simp add: overlay_blend_def Let_def cell'_def cell_h_def cell_w_def)
  from assign_channel_ok [OF bg _ wf' sh' co(1,2) fit ch cw, of 0 fo t] C
  obtain b1 where b1: "assign_channel fo t bg cell' co cell_h cell_w 0 = Inr b1"
    "wf_array b1" "shape b1 = [H, W, C]"
    "\<forall>i < H. \<forall>j < W. pix b1 ! i ! j =
              (if r0 \<le> i \<and> i < r0 + nr \<and> c0 \<le> j \<and> j < c0 + nc
               then blend_px fo t 0 (pix bg ! i ! j) (pix cell' ! (i - r0) ! (j - c0))
               else pix bg ! i ! j)" by auto
  from assign_channel_ok [OF b1(2,3) _ wf' sh' co(1,2) fit ch cw, of 1 fo t] C
  obtain b2 where b2: "assign_channel fo t b1 cell' co cell_h cell_w 1 = Inr b2"
    "wf_array b2" "shape b2 = [H, W, C]"
    "\<forall>i < H. \<forall>j < W. pix b2 ! i ! j =
              (if r0 \<le> i \<and> i < r0 + nr \<and> c0 \<le> j \<and> j < c0 + nc
               then blend_px fo t 1 (pix b1 ! i ! j) (pix cell' ! (i - r0) ! (j - c0))
               else pix b1 ! i ! j)" by auto
  from assign_channel_ok [OF b2(2,3) _ wf' sh' co(1,2) fit ch cw, of 2 fo t] C
  obtain b3 where b3: "assign_channel fo t b2 cell' co cell_h cell_w 2 = Inr b3"
    "wf_array b3" "shape b3 = [H, W, C]"
    "\<forall>i < H. \<forall>j < W. pix b3 ! i ! j =
              (if r0 \<le> i \<and> i < r0 + nr \<and> c0 \<le> j \<and> j < c0 + nc
               then blend_px fo t 2 (pix b2 ! i ! j) (pix cell' ! (i - r0) ! (j - c0))
               else pix b2 ! i ! j)" by auto
  have res: "overlay_blend fo bg cell (int sh) (int sw) co t = Inr b3"
    using b1(1) b2(1) b3(1) by (simp add: ov)
  have "pix b3 ! i ! j ! k =
              (if r0 \<le> i \<and> i < r0 + sh \<and> c0 \<le> j \<and> j < c0 + sw \<and> k < 3
               then to_u8 fo (blend_value fo (alpha_of fo t (pix cell ! (i - r0) ! (j - c0)))
                      (pix bg ! i ! j ! k) (pix cell ! (i - r0) ! (j - c0) ! k))
               else pix bg ! i ! j ! k)" if a: "i < H" "j < W" "k < C" for i j k
  proof -
    define R where "R \<longleftrightarrow> r0 \<le> i \<and> i < r0 + nr \<and> c0 \<le> j \<and> j < c0 + nc"
    define cp where "cp = pix cell' ! (i - r0) ! (j - c0)"
    have s1: "pix b1 ! i ! j = (if R then blend_px fo t 0 (pix bg ! i ! j) cp else pix bg ! i ! j)"
      unfolding R_def cp_def using b1(4) a by blast
    have s2: "pix b2 ! i ! j = (if R then blend_px fo t 1 (pix b1 ! i ! j) cp else pix b1 ! i ! j)"
      unfolding R_def cp_def using b2(4) a by blast
    have s3: "pix b3 ! i ! j = (if R then blend_px fo t 2 (pix b2 ! i ! j) cp else pix b2 ! i ! j)"
      unfolding R_def cp_def using b3(4) a by blast
    show ?thesis
    proof (cases "r0 \<le> i \<and> i < r0 + sh \<and> c0 \<le> j \<and> j < c0 + sw")
    case True
    then have r: "R"
      using a unfolding R_def nr_def nc_def by linarith
    then have "i - r0 < nr" "j - c0 < nc" unfolding R_def by linarith+
    then have pc: "pix cell' ! (i - r0) ! (j - c0) = pix cell ! (i - r0) ! (j - c0)"
      by (rule px')
    have l: "length (pix bg ! i ! j) = C" using bg a by (simp add: wf_array3)
    have e: "pix b3 ! i ! j = blend_px fo t 2 (blend_px fo t 1 (blend_px fo t 0 (pix bg ! i ! j)
             (pix cell ! (i - r0) ! (j - c0))) (pix cell ! (i - r0) ! (j - c0)))
             (pix cell ! (i - r0) ! (j - c0))"
      using r s1 s2 s3 pc by (simp add: cp_def)
    show ?thesis unfolding e blend3_nth [OF l C a(3)] using True by simp
  next
    case False
    then have r: "\<not> R"
      unfolding R_def nr_def nc_def by linarith
    then have "pix b3 ! i ! j = pix bg ! i ! j" using s1 s2 s3 by simp
    then show ?thesis using False by auto
  qed
  qed
  with res b3(2,3) show ?thesis by blast
qed


section \<open>The blend of \<open>_overlay\<close>\<close>

lemma overlay_blend_clipped:
  assumes bg: "shape bg = [H, W, C]"
    and cell: "shape cell = [sh, sw, K]"
    and co: "coord_h co = int r0" "coord_w co = int c0" "r0 \<le> H" "c0 \<le> W"
  shows "overlay_blend fo bg cell (int sh) (int sw) co t =
           (let nr = min sh (H - r0); nc = min sw (W - c0); cell' = slice2 cell (int nr) (int nc)
            in if K = 4 then assign_channels fo t bg cell' co (int nr) (int nc) [0, 1, 2]
               else Inr bg)"
proof -
  have ch: "(if coord_h co + int sh > int (shape bg ! 0)
             then int (shape bg ! 0) - coord_h co else int sh) = int (min sh (H - r0))"
    using bg co by auto
  have cw: "(if coord_w co + int sw > int (shape bg ! 1)
             then int (shape bg ! 1) - coord_w co else int sw) = int (min sw (W - c0))"
    using bg co by auto
  show ?thesis
    unfolding overlay_blend_def ch cw using cell
    by (simp add: Let_def slice2_def slice_bound_def)
qed

lemma slice2_idem:
  assumes "shape cell = [sh, sw, K]" "nr \<le> sh" "nc \<le> sw"
  shows "slice2 (slice2 cell (int nr) (int nc)) (int nr) (int nc) = slice2 cell (int nr) (int nc)"
  using assms by (simp add: slice2_def slice_bound_def Let_def take_map)

lemma overlay_blend_no_alpha:
  assumes "shape bg = [H, W, C]" "shape cell = [sh, sw, K]" "K \<noteq> 4"
    and "coord_h co = int r0" "coord_w co = int c0" "r0 \<le> H" "c0 \<le> W"
  shows "overlay_blend fo bg cell (int sh) (int sw) co t = Inr bg"
  using overlay_blend_clipped [OF assms(1,2,4,5,6,7), of fo t] assms(3) by (simp add: Let_def)

text \<open>
  Claim C2. When the sprite has an alpha channel (shape \<open>[sh, sw, 4]\<close>, with \<open>cell_h\<close> and
  \<open>cell_w\<close> its height and width, as \<open>_rotate_cell\<close> returns them) and the placement
  lies in the background, the overlay succeeds, and in the result every pixel \<open>(i, j)\<close> of
  the clipped region (rows \<open>r0 \<le> i < r0 + sh\<close>, columns \<open>c0 \<le> j < c0 + sw\<close>, inside the
  background) holds in each of the channels 0, 1, 2 the value
  \<open>(1 - factor) * background + factor * sprite\<close> with
  \<open>factor = (alpha / 255) * transparency\<close>, computed from that channel alone and stored
  into the \<open>uint8\<close> array; every other channel value of the background is as before.
\<close>

theorem overlay_alpha_blend_values:
  assumes "wf_array bg" "shape bg = [H, W, C]" "3 \<le> C"
    and "wf_array cell" "shape cell = [sh, sw, 4]"
    and "coord_h co = int r0" "coord_w co = int c0" "r0 \<le> H" "c0 \<le> W"
  shows "\<exists>bg'. overlay_blend fo bg cell (int sh) (int sw) co transparency = Inr bg' \<and>
           (\<forall>i < H. \<forall>j < W. \<forall>k < C. pix bg' ! i ! j ! k =
              (if r0 \<le> i \<and> i < r0 + sh \<and> c0 \<le> j \<and> j < c0 + sw \<and> k < 3
               then to_u8 fo
                      (fadd fo
                         (fmul fo
                            (fsub fo (of_int_f fo 1)
                               (fmul fo (fdiv fo (of_u8 fo (pix cell ! (i - r0) ! (j - c0) ! 3))
                                           (of_int_f fo 255)) transparency))
                            (of_u8 fo (pix bg ! i ! j ! k)))
                         (fmul fo
                            (fmul fo (fdiv fo (of_u8 fo (pix cell ! (i - r0) ! (j - c0) ! 3))
                                        (of_int_f fo 255)) transparency)
                            (of_u8 fo (pix cell ! (i - r0) ! (j - c0) ! k))))
               else pix bg ! i ! j ! k))"
  using overlay_blend_rgba [OF assms, of fo transparency]
  unfolding blend_value_def alpha_of_def by blast

theorem overlay_alpha_blend_values_witness:
  "wf_array \<lparr> shape = [2, 2, 3], pix = [[[10, 20, 30], [40, 50, 60]], [[70, 80, 90], [100, 110, 120]]] \<rparr> \<and>
   wf_array \<lparr> shape = [2, 2, 4], pix = [[[1, 2, 3, 255], [4, 5, 6, 255]], [[7, 8, 9, 255], [9, 9, 9, 255]]] \<rparr> \<and>
   (\<exists>bg'. overlay_blend ideal
       \<lparr> shape = [2, 2, 3], pix = [[[10, 20, 30], [40, 50, 60]], [[70, 80, 90], [100, 110, 120]]] \<rparr>
       \<lparr> shape = [2, 2, 4], pix = [[[1, 2, 3, 255], [4, 5, 6, 255]], [[7, 8, 9, 255], [9, 9, 9, 255]]] \<rparr>
       2 2 \<lparr> coord_h = 1, coord_w = 1 \<rparr> 1 = Inr bg' \<and>
      pix bg' ! 1 ! 1 ! 0 = 1 \<and> pix bg' ! 1 ! 1 ! 2 = 3 \<and> pix bg' ! 0 ! 1 ! 0 = 40)"
proof -
  let ?B = "\<lparr> shape = [2, 2, 3], pix = [[[10, 20, 30], [40, 50, 60]], [[70, 80, 90], [100, 110, 120]]] \<rparr> :: ndarray"
  let ?S = "\<lparr> shape = [2, 2, 4], pix = [[[1, 2, 3, 255], [4, 5, 6, 255]], [[7, 8, 9, 255], [9, 9, 9, 255]]] \<rparr> :: ndarray"
  have wb: "wf_array ?B" and ws: "wf_array ?S" by (simp_all add: wf_array_def)
  from overlay_alpha_blend_values [of ?B 2 2 3 ?S 2 2 "\<lparr> coord_h = 1, coord_w = 1 \<rparr>" 1 1 ideal 1, OF wb _ _ ws]
  obtain bg' where r: "overlay_blend ideal ?B ?S 2 2 \<lparr> coord_h = 1, coord_w = 1 \<rparr> 1 = Inr bg'"
    and v: "\<forall>i < 2. \<forall>j < 2. \<forall>k < 3. pix bg' ! i ! j ! k =
              (if 1 \<le> i \<and> i < 1 + 2 \<and> 1 \<le> j \<and> j < 1 + 2 \<and> k < 3
               then to_u8 ideal
                      (fadd ideal
                         (fmul ideal
                            (fsub ideal (of_int_f ideal 1)
                               (fmul ideal (fdiv ideal (of_u8 ideal (pix ?S ! (i - 1) ! (j - 1) ! 3))
                                           (of_int_f ideal 255)) 1))
                            (of_u8 ideal (pix ?B ! i ! j ! k)))
                         (fmul ideal
                            (fmul ideal (fdiv ideal (of_u8 ideal (pix ?S ! (i - 1) ! (j - 1) ! 3))
                                        (of_int_f ideal 255)) 1)
                            (of_u8 ideal (pix ?S ! (i - 1) ! (j - 1) ! k))))
               else pix ?B ! i ! j ! k)"
    by auto
  have "pix bg' ! 1 ! 1 ! 0 = 1" using v [rule_format, of 1 1 0]
    by (simp add: ideal_def of_u8_def trunc_def)
  moreover have "pix bg' ! 1 ! 1 ! 2 = 3" using v [rule_format, of 1 1 2]
    by (simp add: ideal_def of_u8_def trunc_def)
  moreover have "pix bg' ! 0 ! 1 ! 0 = 40" using v [rule_format, of 0 1 0] by simp
  ultimately show ?thesis using wb ws r by blast
qed
text \<open>
  Claim C4. For a sprite with alpha channel the clipping is as claimed
  (\<open>overlay_blend_rgba\<close>: rows and columns beyond the background are cut off at the
  south-east, nothing is written elsewhere, nothing raises). The claim is about every
  sprite, though, and the clipping can make the code raise: a grey-scale sprite is an array
  of two dimensions, and clipped to four columns it passes the test
  \<open>cell.shape[-1] == 4\<close>. With \<open>img_size = (100, 100)\<close>, the scale 0.10 and the angle 0
  the sprite is 10 by 10; at the column 96 it is clipped to the width 4, and
  \<open>cell[:, :, 3]\<close> raises an \<open>IndexError\<close>.
\<close>

theorem overlay_clipped_gray_sprite_raises:
  "overlay_blend ideal
     \<lparr> shape = [100, 100, 3], pix = replicate 100 (replicate 100 [0, 0, 0]) \<rparr>
     \<lparr> shape = [10, 10], pix = replicate 10 (replicate 10 [200]) \<rparr> 10 10
     \<lparr> coord_h = 50, coord_w = 96 \<rparr> 1 = Inl IndexError"
  by (simp add: overlay_blend_def slice2_def slice_bound_def Let_def)

text \<open>
  Claim C6. A sprite without alpha channel is meant to leave the background as it is. For
  a sprite of three dimensions whose last one is not 4 (\<open>overlay_blend_no_alpha\<close>) that
  is what \<open>_overlay\<close> does. A grey-scale sprite is an array of two dimensions, and
  \<open>cell.shape[-1]\<close> is then its width: with \<open>img_size = (20, 20)\<close>, the scale 0.20 and
  the angle 0 the sprite is 4 by 4, the test \<open>cell.shape[-1] == 4\<close> succeeds, and
  \<open>cell[:, :, 3]\<close> raises an \<open>IndexError\<close>.
\<close>

theorem overlay_gray_sprite_of_width_4_raises:
  "overlay_blend ideal
     \<lparr> shape = [20, 20, 3], pix = replicate 20 (replicate 20 [0, 0, 0]) \<rparr>
     \<lparr> shape = [4, 4], pix = replicate 4 (replicate 4 [200]) \<rparr> 4 4
     \<lparr> coord_h = 0, coord_w = 0 \<rparr> 1 = Inl IndexError"
  by (simp add: overlay_blend_def slice2_def slice_bound_def Let_def)
section \<open>Failures of a run\<close>

lemma randint_empty:
  "b < a \<Longrightarrow> randint a b g = (Inl (ValueError ''empty range for randrange()''), g)"
  by (simp add: randint_def)

lemma generate_image_empty:
  "max_cells cfg < min_cells cfg \<Longrightarrow>
   generate_image e cfg wd = (Inl (ValueError ''empty range for randrange()''), wd)"
  by (simp add: generate_image_def randint_empty)

text \<open>
  Claim C10. With \<open>min_cells > max_cells\<close>, \<open>_generate_image\<close> fails with the
  \<open>ValueError\<close> of \<open>random.randint\<close> and leaves everything as it was: no generator has
  advanced, the provider has not been asked, nothing is written. So a run of
  \<open>generate_and_save\<close> for at least one image fails with that error, having requested no
  asset and written no image.
\<close>

theorem generate_image_fails_on_empty_cell_range:
  assumes "max_cells cfg < min_cells cfg"
  shows "generate_image e cfg wd = (Inl (ValueError ''empty range for randrange()''), wd) \<and>
         (0 < num_imgs cfg \<longrightarrow>
            (\<exists>wd'. generate_and_save e cfg save_dir wd =
                      (Inl (ValueError ''empty range for randrange()''), wd') \<and>
                    requested wd' = requested wd \<and> provider wd' = provider wd \<and>
                    written wd' = written wd \<and>
                    py_rng wd' = py_rng wd \<and> np_rng wd' = np_rng wd))"
proof (intro conjI impI)
  show "generate_image e cfg wd = (Inl (ValueError ''empty range for randrange()''), wd)"
    using assms by (rule generate_image_empty)
next
  assume "0 < num_imgs cfg"
  then obtain n where n: "nat (num_imgs cfg) = Suc n"
    by (metis Suc_pred' zero_less_nat_eq)
  show "\<exists>wd'. generate_and_save e cfg save_dir wd =
                      (Inl (ValueError ''empty range for randrange()''), wd') \<and>
                    requested wd' = requested wd \<and> provider wd' = provider wd \<and>
                    written wd' = written wd \<and>
                    py_rng wd' = py_rng wd \<and> np_rng wd' = np_rng wd"
    by (simp add: generate_and_save_def n generate_image_empty [OF assms])
qed

theorem generate_image_fails_on_empty_cell_range_witness:
  "max_cells (default_config \<lparr> min_cells := 25, max_cells := 5 \<rparr>)
     < min_cells (default_config \<lparr> min_cells := 25, max_cells := 5 \<rparr>) \<and>
   generate_image demo_env (default_config \<lparr> min_cells := 25, max_cells := 5 \<rparr>) world0
     = (Inl (ValueError ''empty range for randrange()''), world0) \<and>
   0 < num_imgs (default_config \<lparr> min_cells := 25, max_cells := 5 \<rparr>) \<and>
   (\<exists>wd'. generate_and_save demo_env (default_config \<lparr> min_cells := 25, max_cells := 5 \<rparr>)
             ''out'' world0 = (Inl (ValueError ''empty range for randrange()''), wd') \<and>
          requested wd' = [] \<and> written wd' = [])"
proof -
  let ?cfg = "default_config \<lparr> min_cells := 25, max_cells := 5 \<rparr>"
  have h: "max_cells ?cfg < min_cells ?cfg" and n: "0 < num_imgs ?cfg"
    by (simp_all add: default_config_def)
  from generate_image_fails_on_empty_cell_range [OF h, of demo_env world0 "''out''"] n
  have "generate_image demo_env ?cfg world0 = (Inl (ValueError ''empty range for randrange()''), world0)"
    and "\<exists>wd'. generate_and_save demo_env ?cfg ''out'' world0 =
                      (Inl (ValueError ''empty range for randrange()''), wd') \<and>
                    requested wd' = requested world0 \<and> written wd' = written world0"
    by blast+
  moreover have "requested world0 = []" "written world0 = []" by (simp_all add: world0_def)
  ultimately show ?thesis using h n by simp
qed
lemma aborts_all_decode:
  "\<forall>x \<in> set new. decodes e x \<Longrightarrow> aborts_at_undecodable e f new"
  by (simp add: aborts_at_undecodable_def)

lemma aborts_None: "aborts_at_undecodable e None new \<Longrightarrow> \<forall>x \<in> set new. decodes e x"
  by (auto simp: aborts_at_undecodable_def)

lemma aborts_append:
  assumes "\<forall>x \<in> set new1. decodes e x" "aborts_at_undecodable e f new2"
  shows "aborts_at_undecodable e f (new1 @ new2)"
  unfolding aborts_at_undecodable_def
proof (intro ballI impI)
  fix x assume x: "x \<in> set (new1 @ new2)" "\<not> decodes e x"
  then have x2: "x \<in> set new2" using assms(1) by auto
  then have "new2 \<noteq> []" by auto
  then have "last (new1 @ new2) = last new2" by simp
  then show "x = last (new1 @ new2) \<and>
             f = Some (ValueError (''Error: Failed to load image '' @ fst x))"
    using assms(2) x2 x(2) by (simp add: aborts_at_undecodable_def)
qed

lemma load_image_trace:
  "aborts_at_undecodable e (failure (load_image e cfg p rz a)) [(p, a)]"
  by (auto simp: aborts_at_undecodable_def decodes_def load_image_def failure_def
      split: option.splits)

lemma load_image_Inr_decodes: "load_image e cfg p rz a = Inr v \<Longrightarrow> decodes e (p, a)"
  by (auto simp: decodes_def load_image_def split: option.splits)

lemma load_image_undecodable:
  "imread (cv e) p a = None \<Longrightarrow>
   load_image e cfg p rz a = Inl (ValueError (''Error: Failed to load image '' @ p))"
  by (simp add: load_image_def)

lemma load_image_Inl:
  "load_image e cfg p rz a = Inl err \<Longrightarrow>
   aborts_at_undecodable e (Some err) [(p, a)]"
  using load_image_trace [of e cfg p rz a] by (simp add: failure_def)

lemma overlay_cells_trace:
  "overlay_cells e cfg bg cs wd = (r, wd') \<Longrightarrow>
   \<exists>new. requested wd' = requested wd @ new \<and> written wd' = written wd \<and>
         dirs wd' = dirs wd \<and> aborts_at_undecodable e (failure r) new"
proof (induction cs arbitrary: bg wd)
  case Nil
  then show ?case by (auto simp: aborts_at_undecodable_def)
next
  case (Cons co rest)
  obtain path p1 where gp: "get_random_cell e (provider wd) = (path, p1)" by force
  define wd1 where "wd1 = wd \<lparr> provider := p1, requested := requested wd @ [(path, True)] \<rparr>"
  show ?case
  proof (cases "load_image e cfg path True True")
    case (Inl err)
    then have "r = Inl err" "wd' = wd1" using Cons.prems gp by (simp_all add: wd1_def)
    then show ?thesis using load_image_Inl [OF Inl]
      by (intro exI [of _ "[(path, True)]"]) (simp add: wd1_def failure_def)
  next
    case (Inr cell)
    then have dec: "decodes e (path, True)" by (rule load_image_Inr_decodes)
    obtain transparency g1 where
      u: "uniform (flt e) (of_ratio (flt e) 6 10) (of_int_f (flt e) 1) (py_rng wd1) = (transparency, g1)"
      by force
    obtain r2 g2 where ov: "overlay e cfg bg cell co transparency g1 = (r2, g2)" by force
    show ?thesis
    proof (cases r2)
      case (Inl err)
      then have "r = Inl err" "wd' = wd1 \<lparr> py_rng := g2 \<rparr>"
        using Cons.prems gp Inr u ov by (simp_all add: wd1_def Let_def)
      then show ?thesis using dec
        by (intro exI [of _ "[(path, True)]"]) (simp add: wd1_def aborts_all_decode)
    next
      case (Inr bg')
      then have "overlay_cells e cfg bg' rest (wd1 \<lparr> py_rng := g2 \<rparr>) = (r, wd')"
        using Cons.prems gp \<open>load_image e cfg path True True = Inr cell\<close> u ov
        by (simp add: wd1_def Let_def)
      from Cons.IH [OF this] obtain new where
        n: "requested wd' = requested (wd1 \<lparr> py_rng := g2 \<rparr>) @ new"
          "written wd' = written (wd1 \<lparr> py_rng := g2 \<rparr>)" "dirs wd' = dirs (wd1 \<lparr> py_rng := g2 \<rparr>)"
          "aborts_at_undecodable e (failure r) new" by blast
      have "aborts_at_undecodable e (failure r) ([(path, True)] @ new)"
        using dec n(4) by (intro aborts_append) simp_all
      then show ?thesis using n(1,2,3)
        by (intro exI [of _ "[(path, True)] @ new"]) (simp add: wd1_def)
    qed
  qed
qed
lemma generate_image_trace:
  assumes "generate_image e cfg wd = (r, wd')"
  shows "\<exists>new. requested wd' = requested wd @ new \<and> written wd' = written wd \<and>
         dirs wd' = dirs wd \<and> aborts_at_undecodable e (failure r) new"
proof -
  obtain r0 g where ri: "randint (min_cells cfg) (max_cells cfg) (py_rng wd) = (r0, g)" by force
  show ?thesis
  proof (cases r0)
    case (Inl err)
    then have "wd' = wd \<lparr> py_rng := g \<rparr>" using assms ri by (simp add: generate_image_def)
    then show ?thesis by (intro exI [of _ "[]"]) (simp add: aborts_all_decode)
  next
    case n: (Inr num)
    obtain rc g1 where gc: "generate_cell_coords e cfg num g = (rc, g1)" by force
    show ?thesis
    proof (cases rc)
      case (Inl err)
      then have "wd' = wd \<lparr> py_rng := g1 \<rparr>" using assms ri n gc
        by (simp add: generate_image_def)
      then show ?thesis by (intro exI [of _ "[]"]) (simp add: aborts_all_decode)
    next
      case c: (Inr coords)
      obtain path p1 where gp: "get_random_background e (provider wd) = (path, p1)" by force
      define wd1 where "wd1 = wd \<lparr> py_rng := g1, provider := p1,
                                   requested := requested wd @ [(path, False)] \<rparr>"
      show ?thesis
      proof (cases "load_image e cfg path True False")
        case (Inl err)
        then have "r = Inl err" "wd' = wd1" using assms ri n gc c gp
          by (simp_all add: generate_image_def wd1_def)
        then show ?thesis using load_image_Inl [OF Inl]
          by (intro exI [of _ "[(path, False)]"]) (simp add: wd1_def failure_def)
      next
        case b: (Inr background)
        then have dec: "decodes e (path, False)" by (rule load_image_Inr_decodes)
        obtain r2 wd2 where oc: "overlay_cells e cfg background coords wd1 = (r2, wd2)" by force
        from overlay_cells_trace [OF oc] obtain new where
          t: "requested wd2 = requested wd1 @ new" "written wd2 = written wd1"
             "dirs wd2 = dirs wd1" "aborts_at_undecodable e (failure r2) new" by blast
        show ?thesis
        proof (cases r2)
          case (Inl err)
          then have "r = Inl err" "wd' = wd2" using assms ri n gc c gp b oc
            by (simp_all add: generate_image_def wd1_def Let_def)
          moreover have "aborts_at_undecodable e (failure r2) ([(path, False)] @ new)"
            using dec t(4) by (intro aborts_append) simp_all
          ultimately show ?thesis using t(1,2,3) Inl
            by (intro exI [of _ "[(path, False)] @ new"]) (simp add: wd1_def)
        next
          case bg': (Inr background')
          then have "\<forall>x \<in> set new. decodes e x"
            using t(4) by (intro aborts_None) (simp add: failure_def)
          then have all: "aborts_at_undecodable e (failure r) ([(path, False)] @ new)"
            using dec by (intro aborts_all_decode) simp
          obtain r3 pg ng where
            an: "apply_random_noise (flt e) background' (py_rng wd2, np_rng wd2) = (r3, pg, ng)"
            by (metis prod_cases3)
          have "wd' = wd2 \<lparr> py_rng := pg, np_rng := ng \<rparr>"
            using assms ri n gc c gp b oc bg' an
            by (cases r3) (simp_all add: generate_image_def wd1_def Let_def)
          then show ?thesis using t(1,2,3) all
            by (intro exI [of _ "[(path, False)] @ new"]) (simp add: wd1_def)
        qed
      qed
    qed
  qed
qed

lemma save_loop_trace:
  "save_loop e cfg save_dir idx n wd = (r, wd') \<Longrightarrow>
   \<exists>new imgs. requested wd' = requested wd @ new \<and> written wd' = written wd @ imgs \<and>
      dirs wd' = dirs wd \<and> aborts_at_undecodable e (failure r) new \<and>
      (if failure r = None then length imgs = n else length imgs < n)"
proof (induction n arbitrary: idx wd)
  case 0
  then show ?case by (auto simp: aborts_at_undecodable_def failure_def)
next
  case (Suc n)
  obtain r1 wd1 where gi: "generate_image e cfg wd = (r1, wd1)" by force
  from generate_image_trace [OF gi] obtain new1 where
    t: "requested wd1 = requested wd @ new1" "written wd1 = written wd"
       "dirs wd1 = dirs wd" "aborts_at_undecodable e (failure r1) new1" by blast
  show ?case
  proof (cases r1)
    case (Inl err)
    then have "r = Inl err" "wd' = wd1" using Suc.prems gi by simp_all
    then show ?thesis using t Inl
      by (intro exI [of _ new1] exI [of _ "[]"]) (simp add: failure_def)
  next
    case (Inr img)
    define wd2 where "wd2 = wd1 \<lparr> written := written wd1 @ [(result_path save_dir idx, img)] \<rparr>"
    have "save_loop e cfg save_dir (Suc idx) n wd2 = (r, wd')"
      using Suc.prems gi Inr by (simp add: wd2_def)
    from Suc.IH [OF this] obtain new2 imgs where
      s: "requested wd' = requested wd2 @ new2" "written wd' = written wd2 @ imgs"
         "dirs wd' = dirs wd2" "aborts_at_undecodable e (failure r) new2"
         "if failure r = None then length imgs = n else length imgs < n" by blast
    have "\<forall>x \<in> set new1. decodes e x"
      using t(4) Inr by (intro aborts_None) (simp add: failure_def)
    then have "aborts_at_undecodable e (failure r) (new1 @ new2)"
      using s(4) by (rule aborts_append)
    then show ?thesis using s(1,2,3,5) t(1,2,3)
      by (intro exI [of _ "new1 @ new2"] exI [of _ "(result_path save_dir idx, img) # imgs"])
         (auto simp: wd2_def split: if_splits)
  qed
qed
text \<open>
  Claim C7. In a run of \<open>generate_and_save\<close>, a path the provider has returned and that
  does not decode ends the run: the run fails with the \<open>ValueError\<close> whose message names
  that path, that request is the last one made (the load is not tried again, no other asset
  is asked for), and fewer than \<open>num_imgs\<close> images have been written, those of the
  indices before the failure, which stay.
\<close>

theorem undecodable_asset_aborts_run:
  assumes "generate_and_save e cfg save_dir wd = (r, wd')"
    and "x \<in> set (drop (length (requested wd)) (requested wd'))"
    and "imread (cv e) (fst x) (snd x) = None"
  shows "r = Inl (ValueError (''Error: Failed to load image '' @ fst x)) \<and>
         last (requested wd') = x \<and>
         (\<exists>imgs. written wd' = written wd @ imgs \<and> length imgs < nat (num_imgs cfg))"
proof -
  define wd0 where
    "wd0 = (if save_dir \<in> set (dirs wd) then wd else wd \<lparr> dirs := dirs wd @ [save_dir] \<rparr>)"
  have rq: "requested wd0 = requested wd" "written wd0 = written wd" by (simp_all add: wd0_def)
  have "save_loop e cfg save_dir 0 (nat (num_imgs cfg)) wd0 = (r, wd')"
    using assms(1) by (simp add: generate_and_save_def wd0_def)
  from save_loop_trace [OF this] obtain new imgs where
    t: "requested wd' = requested wd @ new" "written wd' = written wd @ imgs"
       "aborts_at_undecodable e (failure r) new"
       "if failure r = None then length imgs = nat (num_imgs cfg)
        else length imgs < nat (num_imgs cfg)"
    unfolding rq by blast
  have x: "x \<in> set new" using assms(2) t(1) by simp
  have nd: "\<not> decodes e x" using assms(3) by (simp add: decodes_def)
  from t(3) x nd have l: "x = last new"
    and f: "failure r = Some (ValueError (''Error: Failed to load image '' @ fst x))"
    by (simp_all add: aborts_at_undecodable_def)
  have "new \<noteq> []" using x by auto
  then have "last (requested wd') = x" using l t(1) by simp
  moreover have "r = Inl (ValueError (''Error: Failed to load image '' @ fst x))"
    using f by (cases r) (simp_all add: failure_def)
  moreover have "length imgs < nat (num_imgs cfg)" using t(4) f by simp
  ultimately show ?thesis using t(2) by blast
qed


lemma margin_ideal_default: "margin ideal 480 = 4" "margin ideal 640 = 6"
  by (simp_all add: margin_def ideal_def trunc_def)

lemma randint_first: "randint 5 25 [] = (Inr 5, [])"
  by (simp add: randint_def)

lemma gen_coords_first: "gen_coords ideal default_config 5 [] = (Inr (replicate 5 \<lparr> coord_h = 0, coord_w = 0 \<rparr>), [])"
  by (simp add: eval_nat_numeral default_config_def margin_ideal_default randint_def)

lemma broken_env_simps:
  "flt broken_env = ideal" "cv broken_env = demo_codec"
  "get_random_background broken_env s = (''missing.png'', Suc s)"
  by (simp_all add: broken_env_def demo_env_def)

lemma imread_missing: "imread demo_codec ''missing.png'' a = None"
  by (simp add: demo_codec_def demo_imread_def)

lemma broken_image:
  "generate_image broken_env default_config world0 =
     (Inl (ValueError ''Error: Failed to load image missing.png''),
      world0 \<lparr> provider := 1, requested := [(''missing.png'', False)] \<rparr>)"
proof -
  have a: "min_cells default_config = 5" "max_cells default_config = 25"
    by (simp_all add: default_config_def)
  have w: "py_rng world0 = []" "provider world0 = 0" "requested world0 = []"
    by (simp_all add: world0_def)
  show ?thesis
    unfolding generate_image_def a w randint_first generate_cell_coords_def broken_env_simps
    by (simp add: gen_coords_first load_image_def broken_env_simps imread_missing world0_def)
qed

lemma save_loop_fails_first:
  "0 < n \<Longrightarrow> generate_image e cfg wd = (Inl err, wd1) \<Longrightarrow>
   save_loop e cfg save_dir idx n wd = (Inl err, wd1)"
  by (cases n) simp_all

lemma broken_run:
  "generate_and_save broken_env default_config ''out'' world0 =
     (Inl (ValueError ''Error: Failed to load image missing.png''),
      world0 \<lparr> provider := 1, requested := [(''missing.png'', False)], dirs := [''out''] \<rparr>)"
proof -
  have n: "0 < nat (num_imgs default_config)" by (simp add: default_config_def)
  have g: "generate_image broken_env default_config (world0 \<lparr> dirs := [''out''] \<rparr>) =
     (Inl (ValueError ''Error: Failed to load image missing.png''),
      world0 \<lparr> provider := 1, requested := [(''missing.png'', False)], dirs := [''out''] \<rparr>)"
  proof -
    have a: "min_cells default_config = 5" "max_cells default_config = 25"
      by (simp_all add: default_config_def)
    have w: "py_rng (world0 \<lparr> dirs := [''out''] \<rparr>) = []" "provider (world0 \<lparr> dirs := [''out''] \<rparr>) = 0"
      "requested (world0 \<lparr> dirs := [''out''] \<rparr>) = []"
      by (simp_all add: world0_def)
    show ?thesis
      unfolding generate_image_def a w randint_first generate_cell_coords_def broken_env_simps
      by (simp add: gen_coords_first load_image_def broken_env_simps imread_missing world0_def)
  qed
  have d: "dirs world0 = []" by (simp add: world0_def)
  show ?thesis
    unfolding generate_and_save_def d using save_loop_fails_first [OF n g] by simp
qed

theorem undecodable_asset_aborts_run_witness:
  "generate_and_save broken_env default_config ''out'' world0 =
     (Inl (ValueError ''Error: Failed to load image missing.png''),
      world0 \<lparr> provider := 1, requested := [(''missing.png'', False)], dirs := [''out''] \<rparr>) \<and>
   (''missing.png'', False) \<in> set (drop (length (requested world0))
      (requested (world0 \<lparr> provider := 1, requested := [(''missing.png'', False)],
                          dirs := [''out''] \<rparr>))) \<and>
   imread (cv broken_env) ''missing.png'' False = None \<and>
   last (requested (world0 \<lparr> provider := 1, requested := [(''missing.png'', False)],
                          dirs := [''out''] \<rparr>)) = (''missing.png'', False)"
proof -
  let ?wd = "world0 \<lparr> provider := 1, requested := [(''missing.png'', False)], dirs := [''out''] \<rparr>"
  have m: "(''missing.png'', False) \<in> set (drop (length (requested world0)) (requested ?wd))"
    by (simp add: world0_def)
  have i: "imread (cv broken_env) (fst (''missing.png'', False)) (snd (''missing.png'', False)) = None"
    by (simp add: broken_env_simps imread_missing)
  from undecodable_asset_aborts_run [OF broken_run m i]
  have "last (requested ?wd) = (''missing.png'', False)" by blast
  then show ?thesis using broken_run m i by simp
qed
section \<open>Placements\<close>

lemma randint_range:
  "a \<le> b \<Longrightarrow> \<exists>v. randint a b g = (Inr v, snd (next_raw g)) \<and> a \<le> v \<and> v \<le> b"
proof -
  assume ab: "a \<le> b"
  obtain k g' where n: "next_raw g = (k, g')" by force
  have pos: "0 < b - a + 1" using ab by linarith
  have "0 \<le> int k mod (b - a + 1)" "int k mod (b - a + 1) < b - a + 1"
    using pos by (rule pos_mod_sign, rule pos_mod_bound)
  then have "a \<le> a + int k mod (b - a + 1)" "a + int k mod (b - a + 1) \<le> b" by linarith+
  then show ?thesis using ab n by (simp add: randint_def)
qed

lemma randint_reach:
  "a \<le> v \<Longrightarrow> v \<le> b \<Longrightarrow> randint a b (nat (v - a) # g) = (Inr v, g)"
  by (simp add: randint_def)

lemma gen_coords_range:
  assumes "0 \<le> fst (img_size cfg) - margin fo (fst (img_size cfg))"
    and "0 \<le> snd (img_size cfg) - margin fo (snd (img_size cfg))"
  shows "\<exists>cs g'. gen_coords fo cfg n g = (Inr cs, g') \<and> length cs = n \<and>
           (\<forall>c \<in> set cs. 0 \<le> coord_h c \<and> coord_h c \<le> fst (img_size cfg) - margin fo (fst (img_size cfg)) \<and>
                           0 \<le> coord_w c \<and> coord_w c \<le> snd (img_size cfg) - margin fo (snd (img_size cfg)))"
proof (induction n arbitrary: g)
  case 0
  then show ?case by simp
next
  case (Suc n)
  from randint_range [OF assms(1), of g] obtain ch where
    h: "randint 0 (fst (img_size cfg) - margin fo (fst (img_size cfg))) g = (Inr ch, snd (next_raw g))"
       "0 \<le> ch" "ch \<le> fst (img_size cfg) - margin fo (fst (img_size cfg))" by blast
  from randint_range [OF assms(2), of "snd (next_raw g)"] obtain cw where
    w: "randint 0 (snd (img_size cfg) - margin fo (snd (img_size cfg))) (snd (next_raw g)) =
          (Inr cw, snd (next_raw (snd (next_raw g))))"
       "0 \<le> cw" "cw \<le> snd (img_size cfg) - margin fo (snd (img_size cfg))" by blast
  from Suc.IH [of "snd (next_raw (snd (next_raw g)))"] obtain cs g' where
    r: "gen_coords fo cfg n (snd (next_raw (snd (next_raw g)))) = (Inr cs, g')" "length cs = n"
       "\<forall>c \<in> set cs. 0 \<le> coord_h c \<and> coord_h c \<le> fst (img_size cfg) - margin fo (fst (img_size cfg)) \<and>
                           0 \<le> coord_w c \<and> coord_w c \<le> snd (img_size cfg) - margin fo (snd (img_size cfg))"
    by blast
  show ?case using h w r by simp
qed

lemma gen_coords_reach:
  assumes "\<forall>c \<in> set cs. 0 \<le> coord_h c \<and> coord_h c \<le> fst (img_size cfg) - margin fo (fst (img_size cfg)) \<and>
                           0 \<le> coord_w c \<and> coord_w c \<le> snd (img_size cfg) - margin fo (snd (img_size cfg))"
  shows "gen_coords fo cfg (length cs)
           (concat (map (\<lambda>c. [nat (coord_h c), nat (coord_w c)]) cs) @ g) = (Inr cs, g)"
  using assms
proof (induction cs)
  case Nil
  then show ?case by simp
next
  case (Cons c cs)
  then have c: "0 \<le> coord_h c" "coord_h c \<le> fst (img_size cfg) - margin fo (fst (img_size cfg))"
    "0 \<le> coord_w c" "coord_w c \<le> snd (img_size cfg) - margin fo (snd (img_size cfg))"
    by simp_all
  have ih: "gen_coords fo cfg (length cs)
           (concat (map (\<lambda>c. [nat (coord_h c), nat (coord_w c)]) cs) @ g) = (Inr cs, g)"
    using Cons by simp
  show ?case
    using randint_reach [OF c(1,2)] randint_reach [OF c(3,4)] ih by simp
qed

lemma margin_ideal: "0 \<le> n \<Longrightarrow> margin ideal n = n div 100"
proof -
  assume n: "0 \<le> n"
  have "\<lfloor>real_of_int n / real_of_int 100\<rfloor> = n div 100" by (rule floor_divide_of_int_eq)
  then show ?thesis using n by (simp add: margin_def ideal_def trunc_def)
qed
lemma randint_below:
  assumes "0 \<le> n" "k < nat (n + 1)"
  shows "randint 0 n (k # g) = (Inr (int k), g)"
proof -
  have "int k < n + 1" using assms by linarith
  then have "int k mod (n + 1) = int k" by simp
  then show ?thesis using assms(1) by (simp add: randint_def)
qed

lemma gen_coords_tape_unique:
  assumes "0 \<le> fst (img_size cfg) - margin fo (fst (img_size cfg))"
    and "0 \<le> snd (img_size cfg) - margin fo (snd (img_size cfg))"
  shows "raws_below (nat (fst (img_size cfg) - margin fo (fst (img_size cfg)) + 1))
           (nat (snd (img_size cfg) - margin fo (snd (img_size cfg)) + 1)) t \<Longrightarrow>
         length t = 2 * n \<Longrightarrow> gen_coords fo cfg n t = (Inr cs, g') \<Longrightarrow>
         t = concat (map (\<lambda>c. [nat (coord_h c), nat (coord_w c)]) cs)"
proof (induction n arbitrary: t cs g')
  case 0
  then show ?case by simp
next
  case (Suc n)
  from Suc.prems(2) obtain x y t' where t: "t = x # y # t'" "length t' = 2 * n"
    by (cases t; simp) (metis Suc_length_conv)
  have b: "x < nat (fst (img_size cfg) - margin fo (fst (img_size cfg)) + 1)"
    "y < nat (snd (img_size cfg) - margin fo (snd (img_size cfg)) + 1)"
    "raws_below (nat (fst (img_size cfg) - margin fo (fst (img_size cfg)) + 1))
           (nat (snd (img_size cfg) - margin fo (snd (img_size cfg)) + 1)) t'"
    using Suc.prems(1) t(1) by simp_all
  obtain r3 g3 where rec: "gen_coords fo cfg n t' = (r3, g3)" by force
  have step: "gen_coords fo cfg (Suc n) t =
      (case r3 of Inl err \<Rightarrow> (Inl err, g3)
       | Inr cs' \<Rightarrow> (Inr (\<lparr> coord_h = int x, coord_w = int y \<rparr> # cs'), g3))"
    using randint_below [OF assms(1) b(1)] randint_below [OF assms(2) b(2)] rec
    by (simp add: t(1))
  have "\<exists>cs'. r3 = Inr cs' \<and> cs = \<lparr> coord_h = int x, coord_w = int y \<rparr> # cs'"
    using Suc.prems(3) unfolding step by (cases r3) simp_all
  then obtain cs' where cs': "r3 = Inr cs'" "cs = \<lparr> coord_h = int x, coord_w = int y \<rparr> # cs'"
    by blast
  have "t' = concat (map (\<lambda>c. [nat (coord_h c), nat (coord_w c)]) cs')"
    using Suc.IH [OF b(3) t(2), of cs' g3] rec cs'(1) by simp
  then show ?case using t(1) cs'(2) by simp
qed

lemma raws_below_concat:
  assumes "\<forall>c \<in> set cs. 0 \<le> coord_h c \<and> coord_h c \<le> hm \<and> 0 \<le> coord_w c \<and> coord_w c \<le> wm"
  shows "raws_below (nat (hm + 1)) (nat (wm + 1))
           (concat (map (\<lambda>c. [nat (coord_h c), nat (coord_w c)]) cs)) \<and>
         length (concat (map (\<lambda>c. [nat (coord_h c), nat (coord_w c)]) cs)) = 2 * length cs"
  using assms
proof (induction cs)
  case Nil
  then show ?case by simp
next
  case (Cons c cs)
  then have "0 \<le> coord_h c" "coord_h c \<le> hm" "0 \<le> coord_w c" "coord_w c \<le> wm" by simp_all
  then have "nat (coord_h c) < nat (hm + 1)" "nat (coord_w c) < nat (wm + 1)" by linarith+
  then show ?case using Cons by simp
qed

text \<open>
  Claim C3, as the code has it. The margin is \<open>int(n * 0.01)\<close> (\<open>margin\<close>), which rounds
  towards zero and not up: with exact arithmetic it is \<open>n div 100\<close> (\<open>margin_ideal\<close>).
  Where the two ranges are not empty, \<open>_generate_cell_coords\<close> returns \<open>count\<close>
  placements, each row in \<open>[0, H - int(H * 0.01)]\<close> and each column in
  \<open>[0, W - int(W * 0.01)]\<close>. The placements are uniform and independent, with
  replacement: each coordinate is a draw of its own, and every list of \<open>count\<close> placements
  in these ranges, repetitions included, is returned for exactly one sequence of raw
  outputs of the generator, \<open>2 * count\<close> of them, alternately below the number of rows
  and below the number of columns to choose from. So equally likely sequences of raw outputs
  give equally likely lists of placements.
\<close>

theorem generate_cell_coords_uniform_in_range:
  assumes "img_size cfg = (H, W)" "margin (flt e) H \<le> H" "margin (flt e) W \<le> W"
  shows "(\<exists>cs g'. generate_cell_coords e cfg count g = (Inr cs, g') \<and> length cs = nat count \<and>
            (\<forall>c \<in> set cs. 0 \<le> coord_h c \<and> coord_h c \<le> H - margin (flt e) H \<and>
                            0 \<le> coord_w c \<and> coord_w c \<le> W - margin (flt e) W)) \<and>
         (\<forall>cs. length cs = nat count \<and>
            (\<forall>c \<in> set cs. 0 \<le> coord_h c \<and> coord_h c \<le> H - margin (flt e) H \<and>
                            0 \<le> coord_w c \<and> coord_w c \<le> W - margin (flt e) W) \<longrightarrow>
            (\<exists>!t. raws_below (nat (H - margin (flt e) H + 1)) (nat (W - margin (flt e) W + 1)) t \<and>
                  length t = 2 * nat count \<and>
                  generate_cell_coords e cfg count t = (Inr cs, [])))"
proof -
  have sz: "fst (img_size cfg) = H" "snd (img_size cfg) = W" using assms(1) by simp_all
  have nn: "0 \<le> fst (img_size cfg) - margin (flt e) (fst (img_size cfg))"
    "0 \<le> snd (img_size cfg) - margin (flt e) (snd (img_size cfg))"
    unfolding sz using assms(2,3) by simp_all
  have a: "\<exists>cs g'. generate_cell_coords e cfg count g = (Inr cs, g') \<and> length cs = nat count \<and>
            (\<forall>c \<in> set cs. 0 \<le> coord_h c \<and> coord_h c \<le> H - margin (flt e) H \<and>
                            0 \<le> coord_w c \<and> coord_w c \<le> W - margin (flt e) W)"
    using gen_coords_range [OF nn, of "nat count" g]
    unfolding sz generate_cell_coords_def by simp
  have b: "\<exists>!t. raws_below (nat (H - margin (flt e) H + 1)) (nat (W - margin (flt e) W + 1)) t \<and>
                  length t = 2 * nat count \<and>
                  generate_cell_coords e cfg count t = (Inr cs, [])"
    if l: "length cs = nat count"
      and r: "\<forall>c \<in> set cs. 0 \<le> coord_h c \<and> coord_h c \<le> H - margin (flt e) H \<and>
                            0 \<le> coord_w c \<and> coord_w c \<le> W - margin (flt e) W" for cs
  proof (rule ex1I [of _ "concat (map (\<lambda>c. [nat (coord_h c), nat (coord_w c)]) cs)"])
    have r': "\<forall>c \<in> set cs. 0 \<le> coord_h c \<and>
            coord_h c \<le> fst (img_size cfg) - margin (flt e) (fst (img_size cfg)) \<and>
            0 \<le> coord_w c \<and>
            coord_w c \<le> snd (img_size cfg) - margin (flt e) (snd (img_size cfg))"
      unfolding sz using r by simp
    have "gen_coords (flt e) cfg (length cs)
            (concat (map (\<lambda>c. [nat (coord_h c), nat (coord_w c)]) cs)) = (Inr cs, [])"
      using gen_coords_reach [OF r', of "[]"] by simp
    then show "raws_below (nat (H - margin (flt e) H + 1)) (nat (W - margin (flt e) W + 1))
             (concat (map (\<lambda>c. [nat (coord_h c), nat (coord_w c)]) cs)) \<and>
          length (concat (map (\<lambda>c. [nat (coord_h c), nat (coord_w c)]) cs)) = 2 * nat count \<and>
          generate_cell_coords e cfg count
            (concat (map (\<lambda>c. [nat (coord_h c), nat (coord_w c)]) cs)) = (Inr cs, [])"
      using raws_below_concat [OF r] l by (simp add: generate_cell_coords_def)
  next
    fix t
    assume t: "raws_below (nat (H - margin (flt e) H + 1)) (nat (W - margin (flt e) W + 1)) t \<and>
          length t = 2 * nat count \<and> generate_cell_coords e cfg count t = (Inr cs, [])"
    then have "gen_coords (flt e) cfg (nat count) t = (Inr cs, [])"
      by (simp add: generate_cell_coords_def)
    from gen_coords_tape_unique [OF nn _ _ this] t
    show "t = concat (map (\<lambda>c. [nat (coord_h c), nat (coord_w c)]) cs)"
      unfolding sz by simp
  qed
  show ?thesis using a b by blast
qed

theorem generate_cell_coords_uniform_in_range_witness:
  "img_size default_config = (480, 640) \<and>
   margin (flt demo_env) 480 = 4 \<and> margin (flt demo_env) 640 = 6 \<and>
   (\<exists>cs g'. generate_cell_coords demo_env default_config 25 [] = (Inr cs, g') \<and>
      length cs = 25 \<and>
      (\<forall>c \<in> set cs. 0 \<le> coord_h c \<and> coord_h c \<le> 476 \<and> 0 \<le> coord_w c \<and> coord_w c \<le> 634)) \<and>
   (\<exists>!t. raws_below 477 635 t \<and> length t = 4 \<and>
      generate_cell_coords demo_env default_config 2 t =
        (Inr [\<lparr> coord_h = 476, coord_w = 634 \<rparr>, \<lparr> coord_h = 476, coord_w = 634 \<rparr>], []))"
proof -
  have f: "flt demo_env = ideal" by (simp add: demo_env_def)
  have s: "img_size default_config = (480, 640)" by (simp add: default_config_def)
  have m: "margin (flt demo_env) 480 = 4" "margin (flt demo_env) 640 = 6"
    unfolding f by (rule margin_ideal_default)+
  have h: "margin (flt demo_env) 480 \<le> 480" "margin (flt demo_env) 640 \<le> 640"
    unfolding m by simp_all
  note t = generate_cell_coords_uniform_in_range [OF s h]
  have a: "\<exists>cs g'. generate_cell_coords demo_env default_config 25 [] = (Inr cs, g') \<and>
      length cs = 25 \<and>
      (\<forall>c \<in> set cs. 0 \<le> coord_h c \<and> coord_h c \<le> 476 \<and> 0 \<le> coord_w c \<and> coord_w c \<le> 634)"
    using t [of 25 "[]"] unfolding m by simp
  have b: "\<exists>!t. raws_below 477 635 t \<and> length t = 4 \<and>
      generate_cell_coords demo_env default_config 2 t =
        (Inr [\<lparr> coord_h = 476, coord_w = 634 \<rparr>, \<lparr> coord_h = 476, coord_w = 634 \<rparr>], [])"
    using t [of 2 "[]", THEN conjunct2, rule_format,
        of "[\<lparr> coord_h = 476, coord_w = 634 \<rparr>, \<lparr> coord_h = 476, coord_w = 634 \<rparr>]"]
    unfolding m by simp
  show ?thesis using s m a b by blast
qed

text \<open>
  The range of the claim ends at \<open>H - ceil(0.01 * H)\<close>, which is 475 for the default
  height 480; the code returns the row 476.
\<close>

theorem placement_row_above_ceiling_range:
  "generate_cell_coords demo_env default_config 1 [476, 0] =
     (Inr [\<lparr> coord_h = 476, coord_w = 0 \<rparr>], []) \<and>
   fst (img_size default_config) = 480 \<and>
   \<not> (476 \<le> 480 - \<lceil>0.01 * (480 :: real)\<rceil>)"
proof -
  have "\<lceil>0.01 * (480 :: real)\<rceil> = 5" by (simp add: ceiling_eq_iff)
  moreover have "generate_cell_coords demo_env default_config 1 [476, 0] =
     (Inr [\<lparr> coord_h = 476, coord_w = 0 \<rparr>], [])"
    by (simp add: generate_cell_coords_def demo_env_def default_config_def
        margin_ideal_default randint_def)
  ultimately show ?thesis by (simp add: default_config_def)
qed
section \<open>Seeding\<close>

lemma overlay_cells_step:
  assumes "get_random_cell e (provider wd) = (path, p1)"
    and "uniform (flt e) (of_ratio (flt e) 6 10) (of_int_f (flt e) 1) (py_rng wd) = (transparency, g1)"
  shows "overlay_cells e cfg bg (co # rest) wd =
     (case load_image e cfg path True True of
           Inl err \<Rightarrow> (Inl err, wd \<lparr> provider := p1, requested := requested wd @ [(path, True)] \<rparr>)
         | Inr cell \<Rightarrow>
             (case overlay e cfg bg cell co transparency g1 of
                     (Inl err, g2) \<Rightarrow>
                        (Inl err, wd \<lparr> provider := p1, requested := requested wd @ [(path, True)],
                                      py_rng := g2 \<rparr>)
                   | (Inr background', g2) \<Rightarrow>
                       overlay_cells e cfg background' rest
                         (wd \<lparr> provider := p1, requested := requested wd @ [(path, True)],
                              py_rng := g2 \<rparr>)))"
  using assms by (simp add: Let_def split: sum.splits prod.splits)

lemma overlay_cells_sim:
  "same_sources wd1 wd2 \<Longrightarrow>
   overlay_cells e cfg bg cs wd1 = (r1, w1) \<Longrightarrow> overlay_cells e cfg bg cs wd2 = (r2, w2) \<Longrightarrow>
   r1 = r2 \<and> same_sources w1 w2 \<and>
   (\<exists>new. requested w1 = requested wd1 @ new \<and> requested w2 = requested wd2 @ new) \<and>
   written w1 = written wd1 \<and> written w2 = written wd2"
proof (induction cs arbitrary: bg wd1 wd2)
  case Nil
  then show ?case by simp
next
  case (Cons co rest)
  have ss: "py_rng wd1 = py_rng wd2" "np_rng wd1 = np_rng wd2" "provider wd1 = provider wd2"
    using Cons.prems(1) by (simp_all add: same_sources_def)
  obtain path p1 where gp: "get_random_cell e (provider wd1) = (path, p1)" by force
  obtain transparency g1 where
    u: "uniform (flt e) (of_ratio (flt e) 6 10) (of_int_f (flt e) 1) (py_rng wd1) = (transparency, g1)"
    by force
  note s1 = overlay_cells_step [OF gp u, of cfg bg co rest]
  note s2 = overlay_cells_step [OF gp [unfolded ss] u [unfolded ss], of cfg bg co rest]
  show ?case
  proof (cases "load_image e cfg path True True")
    case (Inl err)
    have "overlay_cells e cfg bg (co # rest) wd1 =
        (Inl err, wd1 \<lparr> provider := p1, requested := requested wd1 @ [(path, True)] \<rparr>)"
      "overlay_cells e cfg bg (co # rest) wd2 =
        (Inl err, wd2 \<lparr> provider := p1, requested := requested wd2 @ [(path, True)] \<rparr>)"
      using s1 s2 Inl by simp_all
    then have "r1 = Inl err" "r2 = Inl err"
      "w1 = wd1 \<lparr> provider := p1, requested := requested wd1 @ [(path, True)] \<rparr>"
      "w2 = wd2 \<lparr> provider := p1, requested := requested wd2 @ [(path, True)] \<rparr>"
      using Cons.prems(2,3) by simp_all
    then show ?thesis using ss by (simp add: same_sources_def)
  next
    case (Inr cell)
    obtain ro g2 where ov: "overlay e cfg bg cell co transparency g1 = (ro, g2)" by force
    show ?thesis
    proof (cases ro)
      case (Inl err)
      have "overlay_cells e cfg bg (co # rest) wd1 =
          (Inl err, wd1 \<lparr> provider := p1, requested := requested wd1 @ [(path, True)],
                              py_rng := g2 \<rparr>)"
        "overlay_cells e cfg bg (co # rest) wd2 =
          (Inl err, wd2 \<lparr> provider := p1, requested := requested wd2 @ [(path, True)],
                              py_rng := g2 \<rparr>)"
        using s1 s2 Inr ov Inl by simp_all
      then have "r1 = Inl err" "r2 = Inl err"
        "w1 = wd1 \<lparr> provider := p1, requested := requested wd1 @ [(path, True)], py_rng := g2 \<rparr>"
        "w2 = wd2 \<lparr> provider := p1, requested := requested wd2 @ [(path, True)], py_rng := g2 \<rparr>"
        using Cons.prems(2,3) by simp_all
      then show ?thesis using ss by (simp add: same_sources_def)
    next
      case b: (Inr b1)
      define v1 where "v1 = wd1 \<lparr> provider := p1, requested := requested wd1 @ [(path, True)],
                              py_rng := g2 \<rparr>"
      define v2 where "v2 = wd2 \<lparr> provider := p1, requested := requested wd2 @ [(path, True)],
                              py_rng := g2 \<rparr>"
      have "overlay_cells e cfg bg (co # rest) wd1 = overlay_cells e cfg b1 rest v1"
        "overlay_cells e cfg bg (co # rest) wd2 = overlay_cells e cfg b1 rest v2"
        using s1 s2 Inr ov b by (simp_all add: v1_def v2_def)
      then have r: "overlay_cells e cfg b1 rest v1 = (r1, w1)"
        "overlay_cells e cfg b1 rest v2 = (r2, w2)"
        using Cons.prems(2,3) by simp_all
      have sv: "same_sources v1 v2" using ss by (simp add: same_sources_def v1_def v2_def)
      from Cons.IH [OF sv r] obtain new where
        n: "r1 = r2" "same_sources w1 w2" "requested w1 = requested v1 @ new"
           "requested w2 = requested v2 @ new" "written w1 = written v1" "written w2 = written v2"
        by blast
      show ?thesis using n
        by (intro conjI exI [of _ "[(path, True)] @ new"]) (simp_all add: v1_def v2_def)
    qed
  qed
qed

lemma generate_image_sim:
  assumes ss: "same_sources wd1 wd2"
    and g1: "generate_image e cfg wd1 = (r1, w1)" and g2: "generate_image e cfg wd2 = (r2, w2)"
  shows "r1 = r2 \<and> same_sources w1 w2 \<and>
   (\<exists>new. requested w1 = requested wd1 @ new \<and> requested w2 = requested wd2 @ new) \<and>
   written w1 = written wd1 \<and> written w2 = written wd2"
proof -
  have s: "py_rng wd2 = py_rng wd1" "np_rng wd2 = np_rng wd1" "provider wd2 = provider wd1"
    using ss by (simp_all add: same_sources_def)
  obtain r0 g where ri: "randint (min_cells cfg) (max_cells cfg) (py_rng wd1) = (r0, g)" by force
  show ?thesis
  proof (cases r0)
    case (Inl err)
    then have "generate_image e cfg wd1 = (Inl err, wd1 \<lparr> py_rng := g \<rparr>)"
      "generate_image e cfg wd2 = (Inl err, wd2 \<lparr> py_rng := g \<rparr>)"
      using ri s by (simp_all add: generate_image_def)
    then have "r1 = Inl err" "r2 = Inl err" "w1 = wd1 \<lparr> py_rng := g \<rparr>" "w2 = wd2 \<lparr> py_rng := g \<rparr>"
      using g1 g2 by simp_all
    then show ?thesis using s by (simp add: same_sources_def)
  next
    case n: (Inr num)
    obtain rc gc where gc: "generate_cell_coords e cfg num g = (rc, gc)" by force
    show ?thesis
    proof (cases rc)
      case (Inl err)
      then have "generate_image e cfg wd1 = (Inl err, wd1 \<lparr> py_rng := gc \<rparr>)"
        "generate_image e cfg wd2 = (Inl err, wd2 \<lparr> py_rng := gc \<rparr>)"
        using ri n gc s by (simp_all add: generate_image_def)
      then have "r1 = Inl err" "r2 = Inl err" "w1 = wd1 \<lparr> py_rng := gc \<rparr>" "w2 = wd2 \<lparr> py_rng := gc \<rparr>"
        using g1 g2 by simp_all
      then show ?thesis using s by (simp add: same_sources_def)
    next
      case c: (Inr coords)
      obtain path p1 where gp: "get_random_background e (provider wd1) = (path, p1)" by force
      define v1 where "v1 = wd1 \<lparr> py_rng := gc, provider := p1,
                                   requested := requested wd1 @ [(path, False)] \<rparr>"
      define v2 where "v2 = wd2 \<lparr> py_rng := gc, provider := p1,
                                   requested := requested wd2 @ [(path, False)] \<rparr>"
      have sv: "same_sources v1 v2" using s by (simp add: same_sources_def v1_def v2_def)
      have e1: "generate_image e cfg wd1 =
         (case load_image e cfg path True False of
             Inl err \<Rightarrow> (Inl err, v1)
           | Inr background \<Rightarrow>
               (case overlay_cells e cfg background coords v1 of
                  (Inl err, wd2) \<Rightarrow> (Inl err, wd2)
                | (Inr background', wd2) \<Rightarrow>
                    (case apply_random_noise (flt e) background' (py_rng wd2, np_rng wd2) of
                       (Inl err, (pg, ng)) \<Rightarrow> (Inl err, wd2 \<lparr> py_rng := pg, np_rng := ng \<rparr>)
                     | (Inr noisy, (pg, ng)) \<Rightarrow> (Inr noisy, wd2 \<lparr> py_rng := pg, np_rng := ng \<rparr>))))"
        using ri [unfolded n] gc [unfolded c] gp
        by (simp add: generate_image_def v1_def Let_def split: sum.splits prod.splits)
      have e2: "generate_image e cfg wd2 =
         (case load_image e cfg path True False of
             Inl err \<Rightarrow> (Inl err, v2)
           | Inr background \<Rightarrow>
               (case overlay_cells e cfg background coords v2 of
                  (Inl err, wd2) \<Rightarrow> (Inl err, wd2)
                | (Inr background', wd2) \<Rightarrow>
                    (case apply_random_noise (flt e) background' (py_rng wd2, np_rng wd2) of
                       (Inl err, (pg, ng)) \<Rightarrow> (Inl err, wd2 \<lparr> py_rng := pg, np_rng := ng \<rparr>)
                     | (Inr noisy, (pg, ng)) \<Rightarrow> (Inr noisy, wd2 \<lparr> py_rng := pg, np_rng := ng \<rparr>))))"
        using ri [unfolded n] gc [unfolded c] gp s
        by (simp add: generate_image_def v2_def Let_def split: sum.splits prod.splits)
      show ?thesis
      proof (cases "load_image e cfg path True False")
        case (Inl err)
        have "generate_image e cfg wd1 = (Inl err, v1)" "generate_image e cfg wd2 = (Inl err, v2)"
          using e1 e2 Inl by simp_all
        then have "r1 = Inl err" "r2 = Inl err" "w1 = v1" "w2 = v2"
          using g1 g2 by simp_all
        then show ?thesis using sv by (simp add: v1_def v2_def)
      next
        case b: (Inr background)
        obtain q1 x1 where o1: "overlay_cells e cfg background coords v1 = (q1, x1)" by force
        obtain q2 x2 where o2: "overlay_cells e cfg background coords v2 = (q2, x2)" by force
        from overlay_cells_sim [OF sv o1 o2] obtain new where
          o: "q1 = q2" "same_sources x1 x2" "requested x1 = requested v1 @ new"
             "requested x2 = requested v2 @ new" "written x1 = written v1" "written x2 = written v2"
          by blast
        have o2': "overlay_cells e cfg background coords v2 = (q1, x2)" using o2 o(1) by simp
        have sx: "py_rng x2 = py_rng x1" "np_rng x2 = np_rng x1" "provider x2 = provider x1"
          using o(2) by (simp_all add: same_sources_def)
        show ?thesis
        proof (cases q1)
          case (Inl err)
          have "generate_image e cfg wd1 = (Inl err, x1)" "generate_image e cfg wd2 = (Inl err, x2)"
            using e1 e2 b o1 o2' Inl by simp_all
          then have "r1 = Inl err" "r2 = Inl err" "w1 = x1" "w2 = x2"
            using g1 g2 by simp_all
          then show ?thesis using o
            by (intro conjI exI [of _ "[(path, False)] @ new"]) (simp_all add: v1_def v2_def)
        next
          case bg': (Inr background')
          obtain r3 pg ng where
            an: "apply_random_noise (flt e) background' (py_rng x1, np_rng x1) = (r3, pg, ng)"
            by (metis prod_cases3)
          have "generate_image e cfg wd1 = (r3, x1 \<lparr> py_rng := pg, np_rng := ng \<rparr>)"
            "generate_image e cfg wd2 = (r3, x2 \<lparr> py_rng := pg, np_rng := ng \<rparr>)"
            unfolding e1 e2 using b o1 o2' bg' an sx by (cases r3; simp)+
          then have "r1 = r3" "r2 = r3" "w1 = x1 \<lparr> py_rng := pg, np_rng := ng \<rparr>"
            "w2 = x2 \<lparr> py_rng := pg, np_rng := ng \<rparr>"
            using g1 g2 by simp_all
          then show ?thesis using o sx
            by (intro conjI exI [of _ "[(path, False)] @ new"])
               (simp_all add: v1_def v2_def same_sources_def)
        qed
      qed
    qed
  qed
qed

lemma save_loop_sim:
  "same_sources wd1 wd2 \<Longrightarrow>
   save_loop e cfg save_dir idx n wd1 = (r1, w1) \<Longrightarrow>
   save_loop e cfg save_dir idx n wd2 = (r2, w2) \<Longrightarrow>
   r1 = r2 \<and> same_sources w1 w2 \<and>
   (\<exists>new. requested w1 = requested wd1 @ new \<and> requested w2 = requested wd2 @ new) \<and>
   (\<exists>imgs. written w1 = written wd1 @ imgs \<and> written w2 = written wd2 @ imgs)"
proof (induction n arbitrary: idx wd1 wd2)
  case 0
  then show ?case by simp
next
  case (Suc n)
  obtain q1 x1 where i1: "generate_image e cfg wd1 = (q1, x1)" by force
  obtain q2 x2 where i2: "generate_image e cfg wd2 = (q2, x2)" by force
  from generate_image_sim [OF Suc.prems(1) i1 i2] obtain new where
    o: "q1 = q2" "same_sources x1 x2" "requested x1 = requested wd1 @ new"
       "requested x2 = requested wd2 @ new" "written x1 = written wd1" "written x2 = written wd2"
    by blast
  have i2': "generate_image e cfg wd2 = (q1, x2)" using i2 o(1) by simp
  show ?case
  proof (cases q1)
    case (Inl err)
    have "save_loop e cfg save_dir idx (Suc n) wd1 = (Inl err, x1)"
      "save_loop e cfg save_dir idx (Suc n) wd2 = (Inl err, x2)"
      using i1 i2' Inl by simp_all
    then have "r1 = Inl err" "r2 = Inl err" "w1 = x1" "w2 = x2" using Suc.prems(2,3) by simp_all
    then show ?thesis using o by (intro conjI exI [of _ new] exI [of _ "[]"]) simp_all
  next
    case (Inr img)
    define v1 where "v1 = x1 \<lparr> written := written x1 @ [(result_path save_dir idx, img)] \<rparr>"
    define v2 where "v2 = x2 \<lparr> written := written x2 @ [(result_path save_dir idx, img)] \<rparr>"
    have "save_loop e cfg save_dir idx (Suc n) wd1 = save_loop e cfg save_dir (Suc idx) n v1"
      "save_loop e cfg save_dir idx (Suc n) wd2 = save_loop e cfg save_dir (Suc idx) n v2"
      using i1 i2' Inr by (simp_all add: v1_def v2_def)
    then have r: "save_loop e cfg save_dir (Suc idx) n v1 = (r1, w1)"
      "save_loop e cfg save_dir (Suc idx) n v2 = (r2, w2)"
      using Suc.prems(2,3) by simp_all
    have sv: "same_sources v1 v2" using o(2) by (simp add: same_sources_def v1_def v2_def)
    from Suc.IH [OF sv r] obtain new2 imgs where
      n: "r1 = r2" "same_sources w1 w2" "requested w1 = requested v1 @ new2"
         "requested w2 = requested v2 @ new2" "written w1 = written v1 @ imgs"
         "written w2 = written v2 @ imgs"
      by blast
    show ?thesis using n o
      by (intro conjI exI [of _ "new @ new2"]
          exI [of _ "(result_path save_dir idx, img) # imgs"]) (simp_all add: v1_def v2_def)
  qed
qed

lemma generate_and_save_sim:
  assumes "same_sources wd1 wd2"
    and "generate_and_save e cfg save_dir wd1 = (r1, w1)"
    and "generate_and_save e cfg save_dir wd2 = (r2, w2)"
  shows "r1 = r2 \<and> same_sources w1 w2 \<and>
   (\<exists>new. requested w1 = requested wd1 @ new \<and> requested w2 = requested wd2 @ new) \<and>
   (\<exists>imgs. written w1 = written wd1 @ imgs \<and> written w2 = written wd2 @ imgs)"
proof -
  define v1 where
    "v1 = (if save_dir \<in> set (dirs wd1) then wd1 else wd1 \<lparr> dirs := dirs wd1 @ [save_dir] \<rparr>)"
  define v2 where
    "v2 = (if save_dir \<in> set (dirs wd2) then wd2 else wd2 \<lparr> dirs := dirs wd2 @ [save_dir] \<rparr>)"
  have sv: "same_sources v1 v2" using assms(1) by (simp add: same_sources_def v1_def v2_def)
  have q: "requested v1 = requested wd1" "requested v2 = requested wd2"
    "written v1 = written wd1" "written v2 = written wd2"
    by (simp_all add: v1_def v2_def)
  have r: "save_loop e cfg save_dir 0 (nat (num_imgs cfg)) v1 = (r1, w1)"
    "save_loop e cfg save_dir 0 (nat (num_imgs cfg)) v2 = (r2, w2)"
    using assms(2,3) by (simp_all add: generate_and_save_def v1_def v2_def)
  from save_loop_sim [OF sv r] show ?thesis unfolding q .
qed

lemma init_sim:
  assumes "provider wd1 = provider wd2"
    and "init e (Some seed) wd1 = (r1, v1)" and "init e (Some seed) wd2 = (r2, v2)"
  shows "r1 = r2 \<and> py_rng v1 = py_rng v2 \<and> provider v1 = provider v2 \<and>
         requested v1 = requested wd1 \<and> requested v2 = requested wd2 \<and>
         written v1 = written wd1 \<and> written v2 = written wd2 \<and>
         (r1 = Inr () \<longleftrightarrow> 0 \<le> seed \<and> seed < 2 ^ 32) \<and>
         (r1 = Inr () \<longrightarrow> same_sources v1 v2)"
  using assms by (auto simp: init_def Let_def same_sources_def split: if_splits)

text \<open>
  Claim C8. Two runs (construction with the seed, then \<open>generate_and_save\<close>) with the
  same seed, the same codec and a provider in the same state may start from different
  states of the two generators and from different traces, directories and files on disk.
  They end with the same result (the same exception, if any), have written the same
  sequence of images under the same names, have asked the provider for the same paths, and
  leave the generator of \<open>random\<close> and the provider in the same state: every draw of
  the run (cell count, placements, sprite sizes, angles, transparencies, noise percentage
  and noise pattern) comes from the generators as the seed has set them. For a seed of
  \<open>[0, 2^32 - 1]\<close> the generator of \<open>np.random\<close> ends in the same state too; for
  another seed both constructions fail with the \<open>ValueError\<close> of \<open>np.random.seed\<close>.
\<close>

theorem seeded_runs_agree:
  assumes "provider wd1 = provider wd2"
    and "seeded_run e cfg (Some seed) save_dir wd1 = (r1, w1)"
    and "seeded_run e cfg (Some seed) save_dir wd2 = (r2, w2)"
  shows "r1 = r2 \<and>
         (\<exists>imgs. written w1 = written wd1 @ imgs \<and> written w2 = written wd2 @ imgs) \<and>
         (\<exists>new. requested w1 = requested wd1 @ new \<and> requested w2 = requested wd2 @ new) \<and>
         py_rng w1 = py_rng w2 \<and> provider w1 = provider w2 \<and>
         (0 \<le> seed \<and> seed < 2 ^ 32 \<longrightarrow> np_rng w1 = np_rng w2) \<and>
         (\<not> (0 \<le> seed \<and> seed < 2 ^ 32) \<longrightarrow>
            r1 = Inl (ValueError ''Seed must be between 0 and 2**32 - 1''))"
proof -
  obtain q1 v1 where i1: "init e (Some seed) wd1 = (q1, v1)" by force
  obtain q2 v2 where i2: "init e (Some seed) wd2 = (q2, v2)" by force
  note s = init_sim [OF assms(1) i1 i2]
  have i2': "init e (Some seed) wd2 = (q1, v2)" using i2 s by simp
  show ?thesis
  proof (cases q1)
    case (Inl err)
    have "seeded_run e cfg (Some seed) save_dir wd1 = (Inl err, v1)"
      "seeded_run e cfg (Some seed) save_dir wd2 = (Inl err, v2)"
      using i1 i2' Inl by (simp_all add: seeded_run_def)
    then have r: "r1 = Inl err" "r2 = Inl err" "w1 = v1" "w2 = v2" using assms(2,3) by simp_all
    have out: "\<not> (0 \<le> seed \<and> seed < 2 ^ 32)" using s Inl by auto
    have "err = ValueError ''Seed must be between 0 and 2**32 - 1''"
      using i1 Inl by (auto simp: init_def Let_def split: if_splits)
    moreover have "py_rng v1 = py_rng v2" "provider v1 = provider v2"
      "requested v1 = requested wd1" "requested v2 = requested wd2"
      "written v1 = written wd1" "written v2 = written wd2"
      using s by simp_all
    ultimately show ?thesis using r out
      by (intro conjI exI [of _ "[]"] impI) simp_all
  next
    case (Inr u)
    have "seeded_run e cfg (Some seed) save_dir wd1 = generate_and_save e cfg save_dir v1"
      "seeded_run e cfg (Some seed) save_dir wd2 = generate_and_save e cfg save_dir v2"
      using i1 i2' Inr by (simp_all add: seeded_run_def)
    then have g: "generate_and_save e cfg save_dir v1 = (r1, w1)"
      "generate_and_save e cfg save_dir v2 = (r2, w2)"
      using assms(2,3) by simp_all
    have sv: "same_sources v1 v2" and inr: "0 \<le> seed \<and> seed < 2 ^ 32" using s Inr by auto
    from generate_and_save_sim [OF sv g] obtain new imgs where
      n: "r1 = r2" "same_sources w1 w2" "requested w1 = requested v1 @ new"
         "requested w2 = requested v2 @ new" "written w1 = written v1 @ imgs"
         "written w2 = written v2 @ imgs"
      by blast
    have q: "requested v1 = requested wd1" "requested v2 = requested wd2"
      "written v1 = written wd1" "written v2 = written wd2"
      using s by simp_all
    show ?thesis using n inr unfolding q by (auto simp: same_sources_def)
  qed
qed

theorem seeded_runs_agree_witness:
  "provider (world0 \<lparr> py_rng := [1, 2, 3], np_rng := [9], dirs := [''old''],
                       requested := [(''x.png'', True)] \<rparr>) = provider world0 \<and>
   world0 \<lparr> py_rng := [1, 2, 3], np_rng := [9], dirs := [''old''],
            requested := [(''x.png'', True)] \<rparr> \<noteq> world0 \<and>
   (0 :: int) \<le> 42 \<and> (42 :: int) < 2 ^ 32 \<and>
   fst (seeded_run demo_env default_config (Some 42) ''out''
        (world0 \<lparr> py_rng := [1, 2, 3], np_rng := [9], dirs := [''old''],
                  requested := [(''x.png'', True)] \<rparr>)) =
   fst (seeded_run demo_env default_config (Some 42) ''out'' world0) \<and>
   written (snd (seeded_run demo_env default_config (Some 42) ''out''
        (world0 \<lparr> py_rng := [1, 2, 3], np_rng := [9], dirs := [''old''],
                  requested := [(''x.png'', True)] \<rparr>))) =
   written (snd (seeded_run demo_env default_config (Some 42) ''out'' world0)) \<and>
   np_rng (snd (seeded_run demo_env default_config (Some 42) ''out''
        (world0 \<lparr> py_rng := [1, 2, 3], np_rng := [9], dirs := [''old''],
                  requested := [(''x.png'', True)] \<rparr>))) =
   np_rng (snd (seeded_run demo_env default_config (Some 42) ''out'' world0))"
proof -
  let ?wd = "world0 \<lparr> py_rng := [1, 2, 3], np_rng := [9], dirs := [''old''],
                  requested := [(''x.png'', True)] \<rparr>"
  let ?a = "seeded_run demo_env default_config (Some 42) ''out'' ?wd"
  let ?b = "seeded_run demo_env default_config (Some 42) ''out'' world0"
  have p: "provider ?wd = provider world0" by simp
  have d: "?wd \<noteq> world0" by (simp add: world0_def)
  have w: "written ?wd = []" "written world0 = []" by (simp_all add: world0_def)
  from seeded_runs_agree [OF p, of demo_env default_config 42 "''out''" "fst ?a" "snd ?a"
      "fst ?b" "snd ?b"]
  have "fst ?a = fst ?b" "written (snd ?a) = written (snd ?b)" "np_rng (snd ?a) = np_rng (snd ?b)"
    unfolding w by auto
  then show ?thesis using p d by simp
qed
section \<open>Shape of the image through the pipeline\<close>

lemma length_broadcast_to: "length (broadcast_to n xs) = n"
  by (simp add: broadcast_to_def)

lemma slice_bound_le: "slice_bound n len \<le> len"
proof (cases "n < 0")
  case True
  then have "nat (max 0 (int len + n)) \<le> len" by linarith
  then show ?thesis using True by (simp only: slice_bound_def if_True)
next
  case False
  have "min (nat n) len \<le> len" by simp
  then show ?thesis using False by (simp only: slice_bound_def if_False)
qed

lemma slice_range_le: "slice_bound a len + (slice_bound b len - slice_bound a len) \<le> len"
  using slice_bound_le [of a len] slice_bound_le [of b len] by linarith

lemma blend_row_wf:
  assumes "length brow = W" "c0 + nc \<le> W" "\<forall>j < W. length (brow ! j) = C"
  shows "length (blend_row fo t c c0 nc brow crow) = W \<and>
         (\<forall>j < W. length (blend_row fo t c c0 nc brow crow ! j) = C)"
proof -
  have l: "length (broadcast_to nc crow) = nc" by (rule length_broadcast_to)
  have a: "c0 + nc \<le> length brow" using assms by simp
  have "length (blend_row fo t c c0 nc brow crow) = W"
    unfolding blend_row_def using length_zip_range [OF l a] assms(1) by simp
  moreover have "length (blend_row fo t c c0 nc brow crow ! j) = C" if "j < W" for j
  proof -
    have j: "j < length brow" using that assms(1) by simp
    show ?thesis
      unfolding blend_row_def nth_zip_range [OF l a j]
      using assms(3) that by (simp add: length_blend_px)
  qed
  ultimately show ?thesis by blast
qed

lemma assign_channel_wf:
  assumes "wf_array bg" "assign_channel fo t bg cell co cell_h cell_w c = Inr bg'"
  shows "wf_array bg' \<and> shape bg' = shape bg"
proof -
  have r3: "length (shape bg) = 3"
    using assms(2) by (auto simp: assign_channel_def split: if_splits)
  then obtain H W C where sh: "shape bg = [H, W, C]"
    by (auto simp: length_Suc_conv numeral_3_eq_3)
  have lb: "length (pix bg) = H" "\<And>i. i < H \<Longrightarrow> length (pix bg ! i) = W"
    "\<And>i j. i < H \<Longrightarrow> j < W \<Longrightarrow> length (pix bg ! i ! j) = C"
    using assms(1) by (simp_all add: wf_array3 [OF sh])
  define r0 where "r0 = slice_bound (coord_h co) H"
  define nr where "nr = slice_bound (coord_h co + cell_h) H - r0"
  define c0 where "c0 = slice_bound (coord_w co) W"
  define nc where "nc = slice_bound (coord_w co + cell_w) W - c0"
  have fit: "r0 + nr \<le> H" "c0 + nc \<le> W"
    unfolding r0_def nr_def c0_def nc_def by (rule slice_range_le)+
  have ac: "assign_channel fo t bg cell co cell_h cell_w c =
     (if length (shape bg) \<noteq> 3 \<or> shape bg ! 2 \<le> c then Inl IndexError
      else if broadcastable (shape cell ! 0) nr \<and> broadcastable (shape cell ! 1) nc then
             Inr (bg \<lparr> pix := zip_range r0 nr (blend_row fo t c c0 nc) (pix bg)
                      (broadcast_to nr (pix cell)) \<rparr>)
           else Inl (ValueError ''operands could not be broadcast together''))"
    unfolding assign_channel_def Let_def r0_def nr_def c0_def nc_def using sh by simp
  have bg': "bg' = bg \<lparr> pix := zip_range r0 nr (blend_row fo t c c0 nc) (pix bg)
                      (broadcast_to nr (pix cell)) \<rparr>"
    using assms(2) unfolding ac by (simp split: if_splits)
  have l: "length (broadcast_to nr (pix cell)) = nr" by (rule length_broadcast_to)
  have a: "r0 + nr \<le> length (pix bg)" using fit lb by simp
  have s': "shape bg' = [H, W, C]" using sh by (simp add: bg')
  have len: "length (pix bg') = H"
    using length_zip_range [OF l a] lb(1) by (simp add: bg')
  have row: "length (pix bg' ! i) = W \<and> (\<forall>j < W. length (pix bg' ! i ! j) = C)"
    if i: "i < H" for i
  proof -
    have i': "i < length (pix bg)" using i lb by simp
    have b: "length (pix bg ! i) = W" "\<forall>j < W. length (pix bg ! i ! j) = C"
      using lb i by simp_all
    show ?thesis
    proof (cases "r0 \<le> i \<and> i < r0 + nr")
      case True
      then have "pix bg' ! i = blend_row fo t c c0 nc (pix bg ! i)
                   (broadcast_to nr (pix cell) ! (i - r0))"
        by (simp add: bg' nth_zip_range [OF l a i'])
      then show ?thesis using blend_row_wf [OF b(1) fit(2) b(2)] by simp
    next
      case False
      then have "pix bg' ! i = pix bg ! i" by (auto simp: bg' nth_zip_range [OF l a i'])
      then show ?thesis using b by simp
    qed
  qed
  have "wf_array bg'" using len row by (simp add: wf_array3 [OF s'])
  then show ?thesis using s' sh by simp
qed

lemma assign_channels_wf:
  "wf_array bg \<Longrightarrow> assign_channels fo t bg cell co cell_h cell_w cs = Inr bg' \<Longrightarrow>
   wf_array bg' \<and> shape bg' = shape bg"
proof (induction cs arbitrary: bg)
  case Nil
  then show ?case by simp
next
  case (Cons c cs)
  then obtain b1 where b1: "assign_channel fo t bg cell co cell_h cell_w c = Inr b1"
    "assign_channels fo t b1 cell co cell_h cell_w cs = Inr bg'"
    by (auto split: sum.splits)
  from assign_channel_wf [OF Cons.prems(1) b1(1)] Cons.IH [OF _ b1(2)]
  show ?case by simp
qed

lemma overlay_blend_wf:
  assumes "wf_array bg" "overlay_blend fo bg cell cell_h cell_w co t = Inr bg'"
  shows "wf_array bg' \<and> shape bg' = shape bg"
proof -
  define ch where "ch = (if coord_h co + cell_h > int (shape bg ! 0)
                    then int (shape bg ! 0) - coord_h co else cell_h)"
  define cw where "cw = (if coord_w co + cell_w > int (shape bg ! 1)
                    then int (shape bg ! 1) - coord_w co else cell_w)"
  define cell' where "cell' = slice2 cell ch cw"
  have ov: "overlay_blend fo bg cell cell_h cell_w co t =
        (if last (shape cell') = 4 then
           (if length (shape cell') \<noteq> 3 then Inl IndexError
            else assign_channels fo t bg cell' co ch cw [0, 1, 2])
         else Inr bg)"
    by (simp only: overlay_blend_def Let_def ch_def cw_def cell'_def)
  show ?thesis
  proof (cases "last (shape cell') = 4 \<and> length (shape cell') = 3")
    case True
    then have "assign_channels fo t bg cell' co ch cw [0, 1, 2] = Inr bg'"
      using assms(2) unfolding ov by simp
    then show ?thesis by (rule assign_channels_wf [OF assms(1)])
  next
    case False
    then have "bg' = bg" using assms(2) unfolding ov by (auto split: if_splits)
    then show ?thesis using assms(1) by simp
  qed
qed

lemma overlay_Inr:
  assumes "overlay e cfg bg cell co t g = (Inr bg', g')"
  shows "\<exists>cell2 cell_h cell_w. overlay_blend (flt e) bg cell2 cell_h cell_w co t = Inr bg'"
proof -
  obtain u g1 where u: "uniform (flt e) (of_ratio (flt e) 5 100) (of_ratio (flt e) 20 100) g = (u, g1)"
    by force
  define cs where "cs = to_int (flt e) (fmul (flt e)
                           (of_int_f (flt e) (min (fst (img_size cfg)) (snd (img_size cfg))))
                           (fround2 (flt e) u))"
  have ov: "overlay e cfg bg cell co t g =
      (case resize (cv e) cell cs cs of
              Inl err \<Rightarrow> (Inl err, g1)
            | Inr cell1 \<Rightarrow>
                (case rotate_cell e cell1 cs cs g1 of
                   (Inl err, g2) \<Rightarrow> (Inl err, g2)
                 | (Inr (cell2, cell_h, cell_w), g2) \<Rightarrow>
                     (overlay_blend (flt e) bg cell2 cell_h cell_w co t, g2)))"
    unfolding cs_def overlay_def Let_def u by simp
  show ?thesis
  proof (cases "resize (cv e) cell cs cs")
    case (Inl err)
    then show ?thesis using assms unfolding ov by simp
  next
    case (Inr cell1)
    obtain r2 g2 where rc: "rotate_cell e cell1 cs cs g1 = (r2, g2)" by force
    show ?thesis
    proof (cases r2)
      case (Inl err)
      then show ?thesis using assms Inr rc unfolding ov by simp
    next
      case r: (Inr tr)
      obtain cell2 cell_h cell_w where tr: "tr = (cell2, cell_h, cell_w)" by (cases tr) auto
      have "overlay_blend (flt e) bg cell2 cell_h cell_w co t = Inr bg'"
        using assms Inr rc r tr unfolding ov by simp
      then show ?thesis by blast
    qed
  qed
qed

lemma overlay_wf:
  assumes "wf_array bg" "overlay e cfg bg cell co t g = (Inr bg', g')"
  shows "wf_array bg' \<and> shape bg' = shape bg"
proof -
  from overlay_Inr [OF assms(2)] obtain cell2 cell_h cell_w where
    "overlay_blend (flt e) bg cell2 cell_h cell_w co t = Inr bg'" by blast
  then show ?thesis by (rule overlay_blend_wf [OF assms(1)])
qed
lemma length_np_randint3: "np_randint3 g = (v, g') \<Longrightarrow> length v = 3"
  by (auto simp: np_randint3_def split: prod.splits)

lemma noise_row_hit:
  assumes "random fo pg = (r, pg1)" "fless fo r (fdiv fo percent (of_int_f fo 100))"
    and "np_randint3 ng = (v, ng1)"
  shows "noise_row fo three percent (px # pxs) (pg, ng) =
           (if three then
               (case noise_row fo three percent pxs (pg1, ng1) of
                  (Inl err, s) \<Rightarrow> (Inl err, s)
                | (Inr rest, s) \<Rightarrow> (Inr (v # rest), s))
             else (Inl (ValueError ''could not broadcast input array''), (pg1, ng1)))"
  using assms by simp

lemma noise_row_miss:
  assumes "random fo pg = (r, pg1)" "\<not> fless fo r (fdiv fo percent (of_int_f fo 100))"
  shows "noise_row fo three percent (px # pxs) (pg, ng) =
           (case noise_row fo three percent pxs (pg1, ng) of
             (Inl err, s) \<Rightarrow> (Inl err, s)
           | (Inr rest, s) \<Rightarrow> (Inr (px # rest), s))"
  using assms by simp

lemma noise_row_shape:
  "noise_row fo three p row s = (Inr row', s') \<Longrightarrow>
   list_all2 (\<lambda>q' q. q' = q \<or> (three \<and> length q' = 3)) row' row"
proof (induction row arbitrary: row' s s')
  case Nil
  then show ?case by simp
next
  case (Cons px pxs)
  obtain pg ng where s: "s = (pg, ng)" by (cases s) auto
  obtain r pg1 where r: "random fo pg = (r, pg1)" by (metis surj_pair)
  show ?case
  proof (cases "fless fo r (fdiv fo p (of_int_f fo 100))")
    case True
    obtain v ng1 where v: "np_randint3 ng = (v, ng1)" by (metis surj_pair)
    note eq = noise_row_hit [OF r True v, of three px pxs]
    have three: three
    proof (rule ccontr)
      assume "\<not> three"
      then show False using Cons.prems unfolding s eq by simp
    qed
    obtain rr ss where rec: "noise_row fo three p pxs (pg1, ng1) = (rr, ss)"
      by (metis surj_pair)
    have "\<exists>rest. rr = Inr rest \<and> row' = v # rest"
      using Cons.prems three unfolding s eq rec by (cases rr) simp_all
    then obtain rest where rest: "rr = Inr rest" "row' = v # rest" by blast
    have "list_all2 (\<lambda>q' q. q' = q \<or> (three \<and> length q' = 3)) rest pxs"
      using Cons.IH [of "(pg1, ng1)" rest ss] rec rest(1) by simp
    then show ?thesis using rest(2) three length_np_randint3 [OF v] by simp
  next
    case False
    note eq = noise_row_miss [OF r False, of three px pxs ng]
    obtain rr ss where rec: "noise_row fo three p pxs (pg1, ng) = (rr, ss)"
      by (metis surj_pair)
    have "\<exists>rest. rr = Inr rest \<and> row' = px # rest"
      using Cons.prems unfolding s eq rec by (cases rr) simp_all
    then obtain rest where rest: "rr = Inr rest" "row' = px # rest" by blast
    have "list_all2 (\<lambda>q' q. q' = q \<or> (three \<and> length q' = 3)) rest pxs"
      using Cons.IH [of "(pg1, ng)" rest ss] rec rest(1) by simp
    then show ?thesis using rest(2) by simp
  qed
qed

lemma noise_rows_shape:
  "noise_rows fo three p rows s = (Inr rows', s') \<Longrightarrow>
   list_all2 (list_all2 (\<lambda>q' q. q' = q \<or> (three \<and> length q' = 3))) rows' rows"
proof (induction rows arbitrary: rows' s s')
  case Nil
  then show ?case by simp
next
  case (Cons row rows)
  obtain r1 s1 where r1: "noise_row fo three p row s = (r1, s1)" by (metis surj_pair)
  have "\<exists>row1. r1 = Inr row1" using Cons.prems r1 by (cases r1) simp_all
  then obtain row1 where row1: "r1 = Inr row1" by blast
  obtain r2 s2 where r2: "noise_rows fo three p rows s1 = (r2, s2)" by (metis surj_pair)
  have "\<exists>rest. r2 = Inr rest \<and> rows' = row1 # rest"
    using Cons.prems r1 row1 r2 by (cases r2) simp_all
  then obtain rest where rest: "r2 = Inr rest" "rows' = row1 # rest" by blast
  show ?case
    using noise_row_shape [of fo three p row s row1 s1] Cons.IH [of s1 rest s2] r1 row1 r2 rest
    by simp
qed

lemma noise_image_wf:
  assumes "wf_array img" "noise_image fo img p s = (Inr img', s')"
  shows "wf_array img' \<and> shape img' = shape img"
proof -
  define three where "three \<longleftrightarrow> length (shape img) = 3 \<and> shape img ! 2 = 3"
  obtain r1 s1 where r1: "noise_rows fo three p (pix img) s = (r1, s1)" by (metis surj_pair)
  have ni: "noise_image fo img p s =
     (case r1 of Inl err \<Rightarrow> (Inl err, s1) | Inr rows \<Rightarrow> (Inr (img \<lparr> pix := rows \<rparr>), s1))"
    using r1 by (simp add: noise_image_def three_def)
  have "\<exists>rows. r1 = Inr rows \<and> img' = img \<lparr> pix := rows \<rparr>"
    using assms(2) unfolding ni by (cases r1) simp_all
  then obtain rows where rows: "r1 = Inr rows" "img' = img \<lparr> pix := rows \<rparr>" by blast
  have la: "list_all2 (list_all2 (\<lambda>q' q. q' = q \<or> (three \<and> length q' = 3))) rows (pix img)"
    using noise_rows_shape [of fo three p "pix img" s rows s1] r1 rows(1) by simp
  have len: "length rows = length (pix img)" using la by (rule list_all2_lengthD)
  have row: "list_all2 (\<lambda>q' q. q' = q \<or> (three \<and> length q' = 3)) (rows ! i) (pix img ! i)"
    if "i < length (pix img)" for i
    using la that len by (simp add: list_all2_conv_all_nth)
  have rlen: "length (rows ! i) = length (pix img ! i)" if "i < length (pix img)" for i
    using row [OF that] by (rule list_all2_lengthD)
  have w: "length (pix img) = shape img ! 0"
    "\<And>i. i < length (pix img) \<Longrightarrow> length (pix img ! i) = shape img ! 1"
    "\<And>i j. i < length (pix img) \<Longrightarrow> j < length (pix img ! i) \<Longrightarrow>
        length (pix img ! i ! j) = (if length (shape img) = 3 then shape img ! 2 else 1)"
    "length (shape img) = 2 \<or> length (shape img) = 3"
    using assms(1) by (simp_all add: wf_array_nth)
  have px: "length (rows ! i ! j) = (if length (shape img) = 3 then shape img ! 2 else 1)"
    if "i < length (pix img)" "j < length (pix img ! i)" for i j
  proof -
    have "rows ! i ! j = pix img ! i ! j \<or> (three \<and> length (rows ! i ! j) = 3)"
      using row [OF that(1)] that(2) by (simp add: list_all2_conv_all_nth)
    then show ?thesis
    proof
      assume "rows ! i ! j = pix img ! i ! j"
      then show ?thesis using w(3) [OF that] by simp
    next
      assume "three \<and> length (rows ! i ! j) = 3"
      then show ?thesis by (simp add: three_def)
    qed
  qed
  have "wf_array (img \<lparr> pix := rows \<rparr>)"
    unfolding wf_array_nth
  proof (intro conjI allI impI)
    show "length (shape (img \<lparr> pix := rows \<rparr>)) = 2 \<or> length (shape (img \<lparr> pix := rows \<rparr>)) = 3"
      using w(4) by simp
    show "length (pix (img \<lparr> pix := rows \<rparr>)) = shape (img \<lparr> pix := rows \<rparr>) ! 0"
      using len w(1) by simp
  next
    fix i assume "i < length (pix (img \<lparr> pix := rows \<rparr>))"
    then have i: "i < length (pix img)" using len by simp
    show "length (pix (img \<lparr> pix := rows \<rparr>) ! i) = shape (img \<lparr> pix := rows \<rparr>) ! 1"
      using rlen [OF i] w(2) [OF i] by simp
    fix j assume "j < length (pix (img \<lparr> pix := rows \<rparr>) ! i)"
    then have j: "j < length (pix img ! i)" using rlen [OF i] by simp
    show "length (pix (img \<lparr> pix := rows \<rparr>) ! i ! j) =
          (if length (shape (img \<lparr> pix := rows \<rparr>)) = 3
           then shape (img \<lparr> pix := rows \<rparr>) ! 2 else 1)"
      using px [OF i j] by simp
  qed
  then show ?thesis by (simp add: rows(2))
qed
lemma load_background_shape:
  assumes "codec_ok e" "img_size cfg = (H, W)" "0 < H" "0 < W"
    and "load_image e cfg path True False = Inr bg"
  shows "wf_array bg \<and> shape bg = [nat H, nat W, 3]"
proof -
  from assms(5) obtain a where a: "imread (cv e) path False = Some a"
    and r: "resize (cv e) a W H = Inr bg"
    using assms(2) by (auto simp: load_image_def split: option.splits)
  from assms(1) a have wa: "wf_array a" "nonempty a" "length (shape a) = 3" "shape a ! 2 = 3"
    unfolding codec_ok_def by blast+
  from assms(1) wa(1,2) assms(3,4) obtain b where
    b: "resize (cv e) a W H = Inr b" "wf_array b" "shape b = nat H # nat W # drop 2 (shape a)"
    unfolding codec_ok_def by blast
  obtain x y z where s: "shape a = [x, y, z]"
    using wa(3) by (auto simp: length_Suc_conv numeral_3_eq_3)
  then have "drop 2 (shape a) = [3]" using wa(4) by simp
  then show ?thesis using b r by simp
qed

lemma overlay_cells_wf:
  "wf_array bg \<Longrightarrow> overlay_cells e cfg bg cs wd = (Inr bg', wd') \<Longrightarrow>
   wf_array bg' \<and> shape bg' = shape bg"
proof (induction cs arbitrary: bg wd)
  case Nil
  then show ?case by simp
next
  case (Cons co rest)
  obtain path p1 where gp: "get_random_cell e (provider wd) = (path, p1)" by force
  define wd1 where "wd1 = wd \<lparr> provider := p1, requested := requested wd @ [(path, True)] \<rparr>"
  obtain transparency g1 where
    u: "uniform (flt e) (of_ratio (flt e) 6 10) (of_int_f (flt e) 1) (py_rng wd1) = (transparency, g1)"
    by force
  have step: "overlay_cells e cfg bg (co # rest) wd =
     (case load_image e cfg path True True of
           Inl err \<Rightarrow> (Inl err, wd1)
         | Inr cell \<Rightarrow>
             (case overlay e cfg bg cell co transparency g1 of
                     (Inl err, g2) \<Rightarrow> (Inl err, wd1 \<lparr> py_rng := g2 \<rparr>)
                   | (Inr background', g2) \<Rightarrow>
                       overlay_cells e cfg background' rest (wd1 \<lparr> py_rng := g2 \<rparr>)))"
    using gp u by (simp add: wd1_def Let_def split: sum.splits prod.splits)
  show ?case
  proof (cases "load_image e cfg path True True")
    case (Inl err)
    then show ?thesis using Cons.prems(2) unfolding step by simp
  next
    case (Inr cell)
    obtain r2 g2 where ov: "overlay e cfg bg cell co transparency g1 = (r2, g2)" by force
    show ?thesis
    proof (cases r2)
      case (Inl err)
      then show ?thesis using Cons.prems(2) Inr ov unfolding step by simp
    next
      case b: (Inr b1)
      then have rec: "overlay_cells e cfg b1 rest (wd1 \<lparr> py_rng := g2 \<rparr>) = (Inr bg', wd')"
        using Cons.prems(2) Inr ov unfolding step by simp
      have "overlay e cfg bg cell co transparency g1 = (Inr b1, g2)" using ov b by simp
      from overlay_wf [OF Cons.prems(1) this] have w1: "wf_array b1" "shape b1 = shape bg"
        by simp_all
      from Cons.IH [OF w1(1) rec] w1(2) show ?thesis by simp
    qed
  qed
qed

lemma apply_random_noise_wf:
  assumes "wf_array img" "apply_random_noise fo img s = (Inr img', s')"
  shows "wf_array img' \<and> shape img' = shape img"
proof -
  obtain np pg1 where u: "uniform fo (of_int_f fo 1) (of_int_f fo 50) (fst s) = (np, pg1)"
    by force
  then have "noise_image fo img np (pg1, snd s) = (Inr img', s')"
    using assms(2) by (simp add: apply_random_noise_def)
  then show ?thesis by (rule noise_image_wf [OF assms(1)])
qed
lemma generate_image_Inr:
  assumes "generate_image e cfg wd = (Inr img, wd')"
  shows "\<exists>path bg coords wd1 bg' wd2 s'.
           load_image e cfg path True False = Inr bg \<and>
           overlay_cells e cfg bg coords wd1 = (Inr bg', wd2) \<and>
           apply_random_noise (flt e) bg' (py_rng wd2, np_rng wd2) = (Inr img, s')"
proof -
  obtain r0 g where ri: "randint (min_cells cfg) (max_cells cfg) (py_rng wd) = (r0, g)" by force
  have "\<exists>num. r0 = Inr num" using assms ri by (cases r0) (simp_all add: generate_image_def)
  then obtain num where n: "r0 = Inr num" by blast
  obtain rc g1 where gc: "generate_cell_coords e cfg num g = (rc, g1)" by force
  have "\<exists>coords. rc = Inr coords"
    using assms ri n gc by (cases rc) (simp_all add: generate_image_def)
  then obtain coords where c: "rc = Inr coords" by blast
  obtain path p1 where gp: "get_random_background e (provider wd) = (path, p1)" by force
  define wd1 where "wd1 = wd \<lparr> py_rng := g1, provider := p1,
                                   requested := requested wd @ [(path, False)] \<rparr>"
  have gi: "generate_image e cfg wd =
     (case load_image e cfg path True False of
                     Inl err \<Rightarrow> (Inl err, wd1)
                   | Inr background \<Rightarrow>
                       (case overlay_cells e cfg background coords wd1 of
                          (Inl err, wd2) \<Rightarrow> (Inl err, wd2)
                        | (Inr background', wd2) \<Rightarrow>
                            (case apply_random_noise (flt e) background' (py_rng wd2, np_rng wd2) of
                               (Inl err, (pg, ng)) \<Rightarrow>
                                 (Inl err, wd2 \<lparr> py_rng := pg, np_rng := ng \<rparr>)
                             | (Inr noisy, (pg, ng)) \<Rightarrow>
                                 (Inr noisy, wd2 \<lparr> py_rng := pg, np_rng := ng \<rparr>))))"
    using ri [unfolded n] gc [unfolded c] gp
    by (simp add: generate_image_def wd1_def Let_def split: sum.splits prod.splits)
  have "\<exists>bg. load_image e cfg path True False = Inr bg"
    using assms unfolding gi by (cases "load_image e cfg path True False") simp_all
  then obtain bg where b: "load_image e cfg path True False = Inr bg" by blast
  obtain r2 wd2 where oc: "overlay_cells e cfg bg coords wd1 = (r2, wd2)" by force
  have "\<exists>bg'. r2 = Inr bg'" using assms b oc unfolding gi by (cases r2) simp_all
  then obtain bg' where b': "r2 = Inr bg'" by blast
  obtain r3 pg ng where
    an: "apply_random_noise (flt e) bg' (py_rng wd2, np_rng wd2) = (r3, pg, ng)"
    by (metis prod_cases3)
  have "r3 = Inr img" using assms b oc b' an unfolding gi by (cases r3) simp_all
  then show ?thesis using b oc b' an by blast
qed

lemma generate_image_shape:
  assumes "codec_ok e" "img_size cfg = (H, W)" "0 < H" "0 < W"
    and "generate_image e cfg wd = (Inr img, wd')"
  shows "wf_array img \<and> shape img = [nat H, nat W, 3]"
proof -
  from generate_image_Inr [OF assms(5)] obtain path bg coords wd1 bg' wd2 s' where
    l: "load_image e cfg path True False = Inr bg"
    and o: "overlay_cells e cfg bg coords wd1 = (Inr bg', wd2)"
    and n: "apply_random_noise (flt e) bg' (py_rng wd2, np_rng wd2) = (Inr img, s')"
    by blast
  from load_background_shape [OF assms(1-4) l] have 1: "wf_array bg" "shape bg = [nat H, nat W, 3]"
    by simp_all
  from overlay_cells_wf [OF 1(1) o] have 2: "wf_array bg'" "shape bg' = shape bg" by simp_all
  from apply_random_noise_wf [OF 2(1) n] show ?thesis using 1(2) 2(2) by simp
qed

lemma u8_range: "0 \<le> uint (v :: u8) \<and> uint v \<le> 255"
proof -
  have "uint v < 2 ^ LENGTH(8)" by (rule uint_bounded)
  then show ?thesis by simp
qed
section \<open>The instance\<close>

lemma scaled_index: "i < n \<Longrightarrow> 0 < m \<Longrightarrow> i * m div n < (m :: nat)"
proof -
  assume a: "i < n" "0 < m"
  then have "i * m < n * m" by simp
  then have "i * m < m * n" by (simp add: mult.commute)
  then show ?thesis using a by (simp add: less_mult_imp_div_less)
qed

lemma resample_wf:
  assumes "wf_array a" "nonempty a"
  shows "wf_array (resample a nh nw) \<and> shape (resample a nh nw) = nh # nw # drop 2 (shape a)"
proof -
  have w: "length (pix a) = shape a ! 0"
    "\<And>i. i < length (pix a) \<Longrightarrow> length (pix a ! i) = shape a ! 1"
    "\<And>i j. i < length (pix a) \<Longrightarrow> j < length (pix a ! i) \<Longrightarrow>
        length (pix a ! i ! j) = (if length (shape a) = 3 then shape a ! 2 else 1)"
    "length (shape a) = 2 \<or> length (shape a) = 3"
    using assms(1) by (simp_all add: wf_array_nth)
  have ne: "0 < shape a ! 0" "0 < shape a ! 1" using assms(2) by (simp_all add: nonempty_def)
  have r: "length (drop 2 (shape a)) = length (shape a) - 2" by simp
  have d2: "length (shape a) = 3 \<Longrightarrow> drop 2 (shape a) ! 0 = shape a ! 2" by simp
  have px: "length (pix a ! (i * (shape a ! 0) div nh) ! (j * (shape a ! 1) div nw)) =
              (if length (shape a) = 3 then shape a ! 2 else 1)" if "i < nh" "j < nw" for i j
  proof -
    have i: "i * (shape a ! 0) div nh < length (pix a)"
      using scaled_index [OF that(1) ne(1)] w(1) by simp
    have j: "j * (shape a ! 1) div nw < length (pix a ! (i * (shape a ! 0) div nh))"
      using scaled_index [OF that(2) ne(2)] w(2) [OF i] by simp
    show ?thesis by (rule w(3) [OF i j])
  qed
  have "wf_array (resample a nh nw)"
    unfolding wf_array_nth using w(4) px by (auto simp: resample_def)
  then show ?thesis by (simp add: resample_def)
qed

lemma demo_resize_ok:
  assumes "wf_array a" "nonempty a" "0 < w" "0 < h"
  shows "\<exists>b. demo_resize a w h = Inr b \<and> wf_array b \<and> shape b = nat h # nat w # drop 2 (shape a)"
  using resample_wf [OF assms(1,2), of "nat h" "nat w"] assms by (simp add: demo_resize_def)

lemma demo_imread_ok:
  assumes "demo_imread p alpha = Some a"
  shows "wf_array a \<and> nonempty a \<and> length (shape a) = 3 \<and> (\<not> alpha \<longrightarrow> shape a ! 2 = 3)"
  using assms by (auto simp: demo_imread_def wf_array_def nonempty_def split: if_splits)

lemma demo_env_simps:
  "flt demo_env = ideal" "cv demo_env = demo_codec"
  "get_random_background demo_env s = (''bg.png'', Suc s)"
  "get_random_cell demo_env s = (''cell.png'', Suc s)"
  "imread demo_codec = demo_imread" "resize demo_codec = demo_resize"
  "getRotationMatrix2D demo_codec = ideal_rotation"
  "warpAffine demo_codec a m w h = demo_resize a w h"
  by (simp_all add: demo_env_def demo_codec_def)

lemma codec_ok_demo: "codec_ok demo_env"
  unfolding codec_ok_def demo_env_simps
  using demo_imread_ok demo_resize_ok by blast

lemma assets_ok_demo: "assets_ok demo_env"
  by (simp add: assets_ok_def decodes_def demo_env_simps demo_imread_def)
section \<open>A run on decodable assets succeeds\<close>

lemma rotate_cell_succeeds:
  assumes "codec_ok e" "sizes_ok e cfg" "wf_array cell" "nonempty cell" "0 < n"
  shows "\<exists>rot nh nw g'. rotate_cell e cell n n g = (Inr (rot, nh, nw), g') \<and>
           wf_array rot \<and> shape rot = nat nh # nat nw # drop 2 (shape cell) \<and> 0 < nh \<and> 0 < nw"
proof -
  from randint_range [of 0 360 g] obtain angle where
    a: "randint 0 360 g = (Inr angle, snd (next_raw g))" by auto
  obtain nh nw where
    d: "rot_dims (flt e) (getRotationMatrix2D (cv e) (n div 2, n div 2) angle) n n = (nh, nw)"
    by force
  have pos: "0 < nh" "0 < nw"
    using assms(2,5) d unfolding sizes_ok_def
    by (metis fst_conv, metis snd_conv)
  obtain m00 m01 m02 m10 m11 m12 where
    mm: "getRotationMatrix2D (cv e) (n div 2, n div 2) angle = ((m00, m01, m02), (m10, m11, m12))"
    by (metis prod_cases3)
  define m' where "m' = ((m00, m01, fadd (flt e) m02 (fsub (flt e)
        (fdiv (flt e) (of_int_f (flt e) nw) (of_int_f (flt e) 2)) (of_int_f (flt e) (n div 2)))),
      (m10, m11, fadd (flt e) m12 (fsub (flt e)
        (fdiv (flt e) (of_int_f (flt e) nh) (of_int_f (flt e) 2)) (of_int_f (flt e) (n div 2)))))"
  from assms(1,3,4) pos obtain rot where
    r: "warpAffine (cv e) cell m' nw nh = Inr rot" "wf_array rot"
       "shape rot = nat nh # nat nw # drop 2 (shape cell)"
    unfolding codec_ok_def by blast
  have "rotate_cell e cell n n g = (Inr (rot, nh, nw), snd (next_raw g))"
    using r(1) by (simp add: rotate_cell_def Let_def a d [unfolded mm] mm m'_def)
  then show ?thesis using r(2,3) pos by blast
qed

lemma shape3_cases:
  assumes "length (shape a) = 3"
  obtains x y z where "shape a = [x, y, z]"
  using assms by (auto simp: length_Suc_conv numeral_3_eq_3)

lemma overlay_blend_succeeds:
  assumes "wf_array bg" "shape bg = [H, W, C]" "3 \<le> C"
    and "wf_array cell" "shape cell = [sh, sw, K]"
    and "0 \<le> coord_h co" "coord_h co \<le> int H" "0 \<le> coord_w co" "coord_w co \<le> int W"
  shows "\<exists>bg'. overlay_blend fo bg cell (int sh) (int sw) co t = Inr bg'"
proof -
  have co: "coord_h co = int (nat (coord_h co))" "coord_w co = int (nat (coord_w co))"
    "nat (coord_h co) \<le> H" "nat (coord_w co) \<le> W"
    using assms(6-9) by simp_all
  show ?thesis
  proof (cases "K = 4")
    case True
    from overlay_blend_rgba [OF assms(1-4) assms(5) [unfolded True] co, of fo t]
    show ?thesis by blast
  next
    case False
    from overlay_blend_no_alpha [OF assms(2,5) False co, of fo t] show ?thesis by blast
  qed
qed

lemma overlay_succeeds:
  assumes "codec_ok e" "sizes_ok e cfg"
    and "wf_array bg" "shape bg = [H, W, C]" "3 \<le> C"
    and "wf_array cell" "nonempty cell" "length (shape cell) = 3"
    and "0 \<le> coord_h co" "coord_h co \<le> int H" "0 \<le> coord_w co" "coord_w co \<le> int W"
  shows "\<exists>bg' g'. overlay e cfg bg cell co t g = (Inr bg', g')"
proof -
  obtain u g1 where u: "uniform (flt e) (of_ratio (flt e) 5 100) (of_ratio (flt e) 20 100) g = (u, g1)"
    by force
  define cs where "cs = to_int (flt e) (fmul (flt e)
                           (of_int_f (flt e) (min (fst (img_size cfg)) (snd (img_size cfg))))
                           (fround2 (flt e) u))"
  have "u = funiform (flt e) (of_ratio (flt e) 5 100) (of_ratio (flt e) 20 100) (fst (next_raw g))"
    using u by (cases "next_raw g") (simp add: uniform_def)
  then have pos: "0 < cs" using assms(2) unfolding sizes_ok_def cs_def by blast
  have ov: "overlay e cfg bg cell co t g =
      (case resize (cv e) cell cs cs of
              Inl err \<Rightarrow> (Inl err, g1)
            | Inr cell1 \<Rightarrow>
                (case rotate_cell e cell1 cs cs g1 of
                   (Inl err, g2) \<Rightarrow> (Inl err, g2)
                 | (Inr (cell2, cell_h, cell_w), g2) \<Rightarrow>
                     (overlay_blend (flt e) bg cell2 cell_h cell_w co t, g2)))"
    unfolding cs_def overlay_def Let_def u by simp
  from assms(1,6,7) pos obtain cell1 where
    c1: "resize (cv e) cell cs cs = Inr cell1" "wf_array cell1"
        "shape cell1 = nat cs # nat cs # drop 2 (shape cell)"
    unfolding codec_ok_def by blast
  have ne1: "nonempty cell1" using c1(3) pos by (simp add: nonempty_def)
  from rotate_cell_succeeds [OF assms(1,2) c1(2) ne1 pos, of g1] obtain rot nh nw g2 where
    r: "rotate_cell e cell1 cs cs g1 = (Inr (rot, nh, nw), g2)" "wf_array rot"
       "shape rot = nat nh # nat nw # drop 2 (shape cell1)" "0 < nh" "0 < nw"
    by blast
  obtain x y z where s: "shape cell = [x, y, z]" using assms(8) by (rule shape3_cases)
  have sr: "shape rot = [nat nh, nat nw, z]" using r(3) c1(3) s by simp
  have i: "int (nat nh) = nh" "int (nat nw) = nw" using r(4,5) by simp_all
  from overlay_blend_succeeds [OF assms(3,4,5) r(2) sr assms(9-12), of "flt e" t]
  obtain bg' where "overlay_blend (flt e) bg rot nh nw co t = Inr bg'" unfolding i by blast
  then have "overlay e cfg bg cell co t g = (Inr bg', g2)"
    unfolding ov using c1(1) r(1) by simp
  then show ?thesis by blast
qed

lemma load_sprite_ok:
  assumes "codec_ok e" "sizes_ok e cfg" "decodes e (path, True)"
  shows "\<exists>cell. load_image e cfg path True True = Inr cell \<and> wf_array cell \<and> nonempty cell \<and>
           length (shape cell) = 3"
proof -
  from assms(3) obtain a where a: "imread (cv e) path True = Some a"
    by (auto simp: decodes_def)
  from assms(1) a have wa: "wf_array a" "nonempty a" "length (shape a) = 3"
    unfolding codec_ok_def by blast+
  have pos: "0 < snd (img_size cfg)" "0 < fst (img_size cfg)"
    using assms(2) by (simp_all add: sizes_ok_def)
  from assms(1) wa(1,2) pos obtain b where
    b: "resize (cv e) a (snd (img_size cfg)) (fst (img_size cfg)) = Inr b" "wf_array b"
       "shape b = nat (fst (img_size cfg)) # nat (snd (img_size cfg)) # drop 2 (shape a)"
    unfolding codec_ok_def by blast
  have "nonempty b" "length (shape b) = 3" using b(3) pos wa(3) by (simp_all add: nonempty_def)
  then show ?thesis using a b(1,2) by (simp add: load_image_def)
qed

lemma load_background_ok:
  assumes "codec_ok e" "sizes_ok e cfg" "img_size cfg = (H, W)" "decodes e (path, False)"
  shows "\<exists>bg. load_image e cfg path True False = Inr bg \<and> wf_array bg \<and>
           shape bg = [nat H, nat W, 3]"
proof -
  from assms(4) obtain a where a: "imread (cv e) path False = Some a"
    by (auto simp: decodes_def)
  from assms(1) a have wa: "wf_array a" "nonempty a"
    unfolding codec_ok_def by blast+
  have pos: "0 < H" "0 < W" using assms(2,3) by (simp_all add: sizes_ok_def)
  from assms(1) wa pos obtain b where b: "resize (cv e) a W H = Inr b"
    unfolding codec_ok_def by blast
  then have l: "load_image e cfg path True False = Inr b"
    using a assms(3) by (simp add: load_image_def)
  from load_background_shape [OF assms(1,3) pos l] l show ?thesis by blast
qed

lemma overlay_cells_succeeds:
  assumes "codec_ok e" "sizes_ok e cfg" "assets_ok e"
  shows "wf_array bg \<Longrightarrow> shape bg = [H, W, 3] \<Longrightarrow>
         \<forall>co \<in> set cs. 0 \<le> coord_h co \<and> coord_h co \<le> int H \<and>
                         0 \<le> coord_w co \<and> coord_w co \<le> int W \<Longrightarrow>
         \<exists>bg' wd'. overlay_cells e cfg bg cs wd = (Inr bg', wd')"
proof (induction cs arbitrary: bg wd)
  case Nil
  then show ?case by simp
next
  case (Cons co rest)
  obtain path p1 where gp: "get_random_cell e (provider wd) = (path, p1)" by force
  obtain transparency g1 where
    u: "uniform (flt e) (of_ratio (flt e) 6 10) (of_int_f (flt e) 1) (py_rng wd) = (transparency, g1)"
    by force
  note step = overlay_cells_step [OF gp u, of cfg bg co rest]
  have "decodes e (fst (get_random_cell e (provider wd)), True)"
    using assms(3) unfolding assets_ok_def by blast
  then have dec: "decodes e (path, True)" using gp by simp
  from load_sprite_ok [OF assms(1,2) dec, of ] obtain cell where
    c: "load_image e cfg path True True = Inr cell" "wf_array cell" "nonempty cell"
       "length (shape cell) = 3" by blast
  have co: "0 \<le> coord_h co" "coord_h co \<le> int H" "0 \<le> coord_w co" "coord_w co \<le> int W"
    using Cons.prems(3) by simp_all
  from overlay_succeeds [OF assms(1,2) Cons.prems(1,2) _ c(2,3,4) co, of transparency g1]
  obtain b1 g2 where ov: "overlay e cfg bg cell co transparency g1 = (Inr b1, g2)" by auto
  from overlay_wf [OF Cons.prems(1) ov] have w1: "wf_array b1" "shape b1 = [H, W, 3]"
    using Cons.prems(2) by simp_all
  have rest: "\<forall>co \<in> set rest. 0 \<le> coord_h co \<and> coord_h co \<le> int H \<and>
                         0 \<le> coord_w co \<and> coord_w co \<le> int W"
    using Cons.prems(3) by simp
  from Cons.IH [OF w1 rest] show ?case unfolding step using c(1) ov by simp
qed

lemma noise_row_succeeds: "\<exists>row' s'. noise_row fo True p row s = (Inr row', s')"
proof (induction row arbitrary: s)
  case Nil
  then show ?case by simp
next
  case (Cons px pxs)
  obtain pg ng where s: "s = (pg, ng)" by (cases s) auto
  obtain r pg1 where r: "random fo pg = (r, pg1)" by (metis surj_pair)
  show ?case
  proof (cases "fless fo r (fdiv fo p (of_int_f fo 100))")
    case True
    obtain v ng1 where v: "np_randint3 ng = (v, ng1)" by (metis surj_pair)
    from Cons.IH [of "(pg1, ng1)"] obtain rest ss where
      "noise_row fo True p pxs (pg1, ng1) = (Inr rest, ss)" by blast
    then show ?thesis unfolding s noise_row_hit [OF r True v] by simp
  next
    case False
    from Cons.IH [of "(pg1, ng)"] obtain rest ss where
      "noise_row fo True p pxs (pg1, ng) = (Inr rest, ss)" by blast
    then show ?thesis unfolding s noise_row_miss [OF r False] by simp
  qed
qed

lemma noise_rows_succeeds: "\<exists>rows' s'. noise_rows fo True p rows s = (Inr rows', s')"
proof (induction rows arbitrary: s)
  case Nil
  then show ?case by simp
next
  case (Cons row rows)
  from noise_row_succeeds [of fo p row s] obtain row' s1 where
    r: "noise_row fo True p row s = (Inr row', s1)" by blast
  from Cons.IH [of s1] obtain rows' s2 where "noise_rows fo True p rows s1 = (Inr rows', s2)"
    by blast
  then show ?case using r by simp
qed

lemma apply_random_noise_succeeds:
  assumes "shape img = [H, W, 3]"
  shows "\<exists>img' s'. apply_random_noise fo img s = (Inr img', s')"
proof -
  obtain np pg1 where u: "uniform fo (of_int_f fo 1) (of_int_f fo 50) (fst s) = (np, pg1)"
    by force
  from noise_rows_succeeds [of fo np "pix img" "(pg1, snd s)"] obtain rows s' where
    "noise_rows fo True np (pix img) (pg1, snd s) = (Inr rows, s')" by blast
  then show ?thesis using u assms by (simp add: apply_random_noise_def noise_image_def)
qed

lemma generate_image_succeeds:
  assumes "codec_ok e" "sizes_ok e cfg" "assets_ok e" "img_size cfg = (H, W)"
    and "min_cells cfg \<le> max_cells cfg"
  shows "\<exists>img wd'. generate_image e cfg wd = (Inr img, wd') \<and> written wd' = written wd \<and>
           wf_array img \<and> shape img = [nat H, nat W, 3]"
proof -
  have sz: "0 < H" "0 < W" "0 \<le> margin (flt e) H" "margin (flt e) H \<le> H"
    "0 \<le> margin (flt e) W" "margin (flt e) W \<le> W"
    using assms(2,4) by (simp_all add: sizes_ok_def)
  from randint_range [OF assms(5), of "py_rng wd"] obtain num g where
    ri: "randint (min_cells cfg) (max_cells cfg) (py_rng wd) = (Inr num, g)" by blast
  have nn: "0 \<le> fst (img_size cfg) - margin (flt e) (fst (img_size cfg))"
    "0 \<le> snd (img_size cfg) - margin (flt e) (snd (img_size cfg))"
    using sz assms(4) by simp_all
  from gen_coords_range [OF nn, of "nat num" g] obtain coords g1 where
    gc: "generate_cell_coords e cfg num g = (Inr coords, g1)"
    and rg: "\<forall>c \<in> set coords. 0 \<le> coord_h c \<and>
               coord_h c \<le> fst (img_size cfg) - margin (flt e) (fst (img_size cfg)) \<and>
               0 \<le> coord_w c \<and>
               coord_w c \<le> snd (img_size cfg) - margin (flt e) (snd (img_size cfg))"
    unfolding generate_cell_coords_def by blast
  have rg': "\<forall>co \<in> set coords. 0 \<le> coord_h co \<and> coord_h co \<le> int (nat H) \<and>
                         0 \<le> coord_w co \<and> coord_w co \<le> int (nat W)"
  proof
    fix co assume "co \<in> set coords"
    then have "0 \<le> coord_h co" "coord_h co \<le> H - margin (flt e) H"
      "0 \<le> coord_w co" "coord_w co \<le> W - margin (flt e) W"
      using rg assms(4) by simp_all
    then show "0 \<le> coord_h co \<and> coord_h co \<le> int (nat H) \<and>
                         0 \<le> coord_w co \<and> coord_w co \<le> int (nat W)"
      using sz by simp
  qed
  obtain path p1 where gp: "get_random_background e (provider wd) = (path, p1)" by force
  define v where "v = wd \<lparr> py_rng := g1, provider := p1,
                                   requested := requested wd @ [(path, False)] \<rparr>"
  have "decodes e (fst (get_random_background e (provider wd)), False)"
    using assms(3) unfolding assets_ok_def by blast
  then have dec: "decodes e (path, False)" using gp by simp
  from load_background_ok [OF assms(1,2,4) dec] obtain bg where
    b: "load_image e cfg path True False = Inr bg" "wf_array bg" "shape bg = [nat H, nat W, 3]"
    by blast
  from overlay_cells_succeeds [OF assms(1,2,3) b(2,3) rg', of v] obtain bg' x where
    oc: "overlay_cells e cfg bg coords v = (Inr bg', x)" by blast
  from overlay_cells_wf [OF b(2) oc] have w': "wf_array bg'" "shape bg' = [nat H, nat W, 3]"
    using b(3) by simp_all
  from overlay_cells_trace [OF oc] have wx: "written x = written v" by blast
  from apply_random_noise_succeeds [OF w'(2), of "flt e" "(py_rng x, np_rng x)"]
  obtain img pg ng where
    an: "apply_random_noise (flt e) bg' (py_rng x, np_rng x) = (Inr img, pg, ng)"
    by (metis surj_pair)
  from apply_random_noise_wf [OF w'(1) an] have wi: "wf_array img" "shape img = [nat H, nat W, 3]"
    using w'(2) by simp_all
  have "generate_image e cfg wd = (Inr img, x \<lparr> py_rng := pg, np_rng := ng \<rparr>)"
    using ri gc gp b(1) oc an
    by (simp add: generate_image_def v_def Let_def)
  then show ?thesis using wi wx by (simp add: v_def)
qed


lemma abs_cos_sin_ge_1: "1 \<le> \<bar>cos x\<bar> + \<bar>sin (x :: real)\<bar>"
proof -
  have c: "\<bar>cos x\<bar> \<le> 1" and s: "\<bar>sin x\<bar> \<le> 1" by simp_all
  have "(cos x)\<^sup>2 = \<bar>cos x\<bar> * \<bar>cos x\<bar>" by (simp add: power2_eq_square)
  also have "\<dots> \<le> \<bar>cos x\<bar> * 1" using c by (intro mult_left_mono) simp_all
  finally have 1: "(cos x)\<^sup>2 \<le> \<bar>cos x\<bar>" by simp
  have "(sin x)\<^sup>2 = \<bar>sin x\<bar> * \<bar>sin x\<bar>" by (simp add: power2_eq_square)
  also have "\<dots> \<le> \<bar>sin x\<bar> * 1" using s by (intro mult_left_mono) simp_all
  finally have 2: "(sin x)\<^sup>2 \<le> \<bar>sin x\<bar>" by simp
  have "(sin x)\<^sup>2 + (cos x)\<^sup>2 = 1" by (rule sin_cos_squared_add)
  then show ?thesis using 1 2 by linarith
qed

lemma trunc_pos: "1 \<le> x \<Longrightarrow> 0 < trunc x"
proof -
  assume "1 \<le> x"
  then have "1 \<le> \<lfloor>x\<rfloor>" by (simp add: le_floor_iff)
  then show ?thesis using \<open>1 \<le> x\<close> by (simp add: trunc_def)
qed

lemma rot_dims_ideal_pos:
  assumes "0 < n"
  shows "0 < fst (rot_dims ideal (ideal_rotation c angle) n n) \<and>
         0 < snd (rot_dims ideal (ideal_rotation c angle) n n)"
proof -
  define a where "a = cos (real_of_int angle * pi / 180)"
  define b where "b = sin (real_of_int angle * pi / 180)"
  have ab: "1 \<le> \<bar>a\<bar> + \<bar>b\<bar>" unfolding a_def b_def by (rule abs_cos_sin_ge_1)
  have n: "1 \<le> real_of_int n" using assms by simp
  have "1 * 1 \<le> real_of_int n * (\<bar>a\<bar> + \<bar>b\<bar>)"
    using n ab by (intro mult_mono) simp_all
  then have 1: "1 \<le> real_of_int n * \<bar>a\<bar> + real_of_int n * \<bar>b\<bar>"
    by (simp add: distrib_left)
  then have 2: "1 \<le> real_of_int n * \<bar>b\<bar> + real_of_int n * \<bar>a\<bar>" by simp
  have "rot_dims ideal (ideal_rotation c angle) n n =
          (trunc (real_of_int n * \<bar>a\<bar> + real_of_int n * \<bar>b\<bar>),
           trunc (real_of_int n * \<bar>b\<bar> + real_of_int n * \<bar>a\<bar>))"
    by (simp add: rot_dims_def ideal_rotation_def Let_def ideal_def a_def b_def)
  then show ?thesis using trunc_pos [OF 1] trunc_pos [OF 2] by simp
qed

lemma cell_size_ideal_pos:
  assumes "20 \<le> m"
  shows "0 < to_int ideal (fmul ideal (of_int_f ideal m)
               (fround2 ideal (funiform ideal (of_ratio ideal 5 100) (of_ratio ideal 20 100) k)))"
proof -
  define q where "q = real (k mod 2 ^ 53) / 2 ^ 53"
  define x where "x = (5 / 100 + (20 / 100 - 5 / 100) * q) * (100 :: real)"
  have "0 \<le> q" by (simp add: q_def)
  then have "5 \<le> x" by (simp add: x_def)
  then have "round (5 :: real) \<le> round x" by (rule round_mono)
  then have r: "5 \<le> round x" by simp
  then have "(5 :: real) \<le> real_of_int (round x)" by linarith
  moreover have m: "(20 :: real) \<le> real_of_int m" using assms by simp
  ultimately have "20 * 5 \<le> real_of_int m * real_of_int (round x)"
    by (intro mult_mono) simp_all
  then have 1: "1 \<le> real_of_int m * (real_of_int (round x) / 100)" by simp
  have "to_int ideal (fmul ideal (of_int_f ideal m)
               (fround2 ideal (funiform ideal (of_ratio ideal 5 100) (of_ratio ideal 20 100) k))) =
        trunc (real_of_int m * (real_of_int (round x) / 100))"
    by (simp add: ideal_def x_def q_def)
  then show ?thesis using trunc_pos [OF 1] by simp
qed

lemma sizes_ok_ideal:
  assumes "flt e = ideal" "getRotationMatrix2D (cv e) = ideal_rotation"
    and "img_size cfg = (H, W)" "20 \<le> H" "20 \<le> W"
  shows "sizes_ok e cfg"
proof -
  have m: "margin ideal H = H div 100" "margin ideal W = W div 100"
    using assms(4,5) by (simp_all add: margin_ideal)
  have "0 \<le> H div 100" "H div 100 \<le> H" "0 \<le> W div 100" "W div 100 \<le> W"
    using assms(4,5) by simp_all
  moreover have "20 \<le> min H W" using assms(4,5) by simp
  ultimately show ?thesis
    unfolding sizes_ok_def assms(1,2,3) fst_conv snd_conv m
    using assms(4,5) cell_size_ideal_pos rot_dims_ideal_pos by simp
qed

lemma sizes_ok_demo: "sizes_ok demo_env default_config"
  by (rule sizes_ok_ideal [of _ _ 480 640]) (simp_all add: demo_env_simps default_config_def)




lemma alpha_ideal_range:
  assumes "0 \<le> t" "t \<le> 1"
  shows "0 \<le> alpha_of ideal t p \<and> alpha_of ideal t p \<le> 1"
proof -
  have u: "0 \<le> uint (p ! 3)" "uint (p ! 3) \<le> 255" using u8_range by simp_all
  define a where "a = real_of_int (uint (p ! 3)) / 255"
  have "0 \<le> real_of_int (uint (p ! 3))" "real_of_int (uint (p ! 3)) \<le> 255"
    using u by linarith+
  then have a: "0 \<le> a" "a \<le> 1" unfolding a_def by (simp_all only: divide_nonneg_nonneg divide_le_eq_1_pos zero_less_numeral zero_le_numeral)
  have "a * t \<le> 1 * 1" using a assms by (intro mult_mono) simp_all
  moreover have "0 \<le> a * t" using a assms by simp
  moreover have "alpha_of ideal t p = a * t"
    by (simp add: alpha_of_def ideal_def of_u8_def a_def)
  ultimately show ?thesis by simp
qed

lemma blend_ideal_range:
  assumes "0 \<le> t" "t \<le> 1"
  shows "0 \<le> blend_value ideal (alpha_of ideal t p) b s \<and>
         blend_value ideal (alpha_of ideal t p) b s \<le> 255"
proof -
  define al where "al = alpha_of ideal t p"
  define x where "x = real_of_int (uint b)"
  define y where "y = real_of_int (uint s)"
  have al: "0 \<le> al" "al \<le> 1" using alpha_ideal_range [OF assms] by (simp_all add: al_def)
  have x: "0 \<le> x" "x \<le> 255" and y: "0 \<le> y" "y \<le> 255"
    unfolding x_def y_def using u8_range [of b] u8_range [of s] by linarith+
  have v: "blend_value ideal al b s = (1 - al) * x + al * y"
    by (simp add: blend_value_def ideal_def of_u8_def x_def y_def)
  have "(1 - al) * x \<le> (1 - al) * 255" "al * y \<le> al * 255"
    using al x y by (intro mult_left_mono; simp)+
  then have "(1 - al) * x + al * y \<le> 255" by (simp add: algebra_simps)
  moreover have "0 \<le> (1 - al) * x + al * y" using al x y by simp
  ultimately show ?thesis unfolding al_def [symmetric] v by simp
qed

text \<open>
  Claim C9. The arrays are of type \<open>uint8\<close>, so every channel value is an integer of
  \<open>[0, 255]\<close> whatever is stored; and what the blend stores is in range before the store
  (in exact arithmetic, for a transparency of \<open>[0, 1]\<close>, the value
  \<open>(1 - alpha) * background + alpha * cell\<close> lies in \<open>[0, 255]\<close>), so nothing wraps
  around. The background comes out of the resize with the shape \<open>(H, W, 3)\<close> of the
  configuration; \<open>_overlay\<close> and \<open>noise_image\<close>, whenever they return, return a
  well-formed array of the shape they were given; so the image \<open>_generate_image\<close> returns
  has the shape \<open>(H, W, 3)\<close>.
\<close>

theorem pipeline_keeps_shape_and_range:
  assumes "codec_ok e" "img_size cfg = (H, W)" "0 < H" "0 < W"
  shows "(\<forall>path bg. load_image e cfg path True False = Inr bg \<longrightarrow>
            wf_array bg \<and> shape bg = [nat H, nat W, 3]) \<and>
         (\<forall>bg cell co t g bg' g'. wf_array bg \<and> overlay e cfg bg cell co t g = (Inr bg', g') \<longrightarrow>
            wf_array bg' \<and> shape bg' = shape bg) \<and>
         (\<forall>img p s img' s'. wf_array img \<and> noise_image (flt e) img p s = (Inr img', s') \<longrightarrow>
            wf_array img' \<and> shape img' = shape img) \<and>
         (\<forall>wd img wd'. generate_image e cfg wd = (Inr img, wd') \<longrightarrow>
            wf_array img \<and> shape img = [nat H, nat W, 3] \<and>
            (\<forall>row \<in> set (pix img). \<forall>px \<in> set row. \<forall>v \<in> set px. 0 \<le> uint v \<and> uint v \<le> 255)) \<and>
         (\<forall>t p b s. 0 \<le> t \<and> t \<le> 1 \<longrightarrow>
            0 \<le> blend_value ideal (alpha_of ideal t p) b s \<and>
            blend_value ideal (alpha_of ideal t p) b s \<le> 255)"
proof (intro conjI allI impI ballI)
  fix path bg assume "load_image e cfg path True False = Inr bg"
  from load_background_shape [OF assms this]
  show "wf_array bg" "shape bg = [nat H, nat W, 3]" by simp_all
next
  fix bg cell co t g bg' g'
  assume a: "wf_array bg \<and> overlay e cfg bg cell co t g = (Inr bg', g')"
  from overlay_wf [of bg e cfg cell co t g bg' g'] a
  show "wf_array bg'" "shape bg' = shape bg" by simp_all
next
  fix img p s img' s'
  assume a: "wf_array img \<and> noise_image (flt e) img p s = (Inr img', s')"
  from noise_image_wf [of img "flt e" p s img' s'] a
  show "wf_array img'" "shape img' = shape img" by simp_all
next
  fix wd img wd' assume "generate_image e cfg wd = (Inr img, wd')"
  from generate_image_shape [OF assms this]
  show "wf_array img" "shape img = [nat H, nat W, 3]" by simp_all
next
  fix v :: u8
  show "0 \<le> uint v" "uint v \<le> 255" using u8_range [of v] by simp_all
next
  fix t :: real and p b s assume "0 \<le> t \<and> t \<le> 1"
  then have "0 \<le> t" "t \<le> 1" by simp_all
  from blend_ideal_range [OF this]
  show "0 \<le> blend_value ideal (alpha_of ideal t p) b s"
    "blend_value ideal (alpha_of ideal t p) b s \<le> 255" by simp_all
qed

theorem pipeline_keeps_shape_and_range_witness:
  "codec_ok demo_env \<and> img_size default_config = (480, 640) \<and>
   (\<exists>img wd'. generate_image demo_env default_config world0 = (Inr img, wd') \<and>
      wf_array img \<and> shape img = [480, 640, 3] \<and>
      (\<forall>row \<in> set (pix img). \<forall>px \<in> set row. \<forall>v \<in> set px. 0 \<le> uint v \<and> uint v \<le> 255)) \<and>
   0 \<le> blend_value ideal (alpha_of ideal (6 / 10) [0, 0, 0, 128]) 255 255 \<and>
   blend_value ideal (alpha_of ideal (6 / 10) [0, 0, 0, 128]) 255 255 \<le> 255"
proof -
  have s: "img_size default_config = (480, 640)"
    and m: "min_cells default_config \<le> max_cells default_config"
    by (simp_all add: default_config_def)
  have "(0 :: int) < 480" "(0 :: int) < 640" by simp_all
  note t = pipeline_keeps_shape_and_range [OF codec_ok_demo s this]
  from generate_image_succeeds [OF codec_ok_demo sizes_ok_demo assets_ok_demo s m, of world0]
  obtain img wd' where g: "generate_image demo_env default_config world0 = (Inr img, wd')"
    by blast
  have 1: "wf_array img \<and> shape img = [480, 640, 3] \<and>
      (\<forall>row \<in> set (pix img). \<forall>px \<in> set row. \<forall>v \<in> set px. 0 \<le> uint v \<and> uint v \<le> 255)"
    using t [THEN conjunct2, THEN conjunct2, THEN conjunct2, THEN conjunct1, rule_format, OF g]
    by simp
  have "(0 :: real) \<le> 6 / 10 \<and> (6 / 10 :: real) \<le> 1" by simp
  from t [THEN conjunct2, THEN conjunct2, THEN conjunct2, THEN conjunct2, rule_format, OF this]
  have 2: "0 \<le> blend_value ideal (alpha_of ideal (6 / 10) [0, 0, 0, 128]) 255 255 \<and>
   blend_value ideal (alpha_of ideal (6 / 10) [0, 0, 0, 128]) 255 255 \<le> 255" .
  show ?thesis using codec_ok_demo s g 1 2 by blast
qed
end
